(* ===== verification/Prelude.thy ===== *)
theory Prelude
  imports Complex_Main "HOL-Library.Code_Target_Nat"
begin

text \<open>
  Shared vocabulary of the development: the collections of simplification rules the
  component theories add to, decimal digit strings (used by the array-index rule of
  JavaScript property keys and by the number printer and lexer of \<open>JSON\<close>), and
  generic lemmas on lists that several components use.
\<close>

named_theorems codec_simps "evaluation rules of the JSON text codec"
named_theorems handler_simps "evaluation rules of the request handlers"

subsection \<open>Decimal digits\<close>

definition is_digit :: "char \<Rightarrow> bool" where
  "is_digit c \<longleftrightarrow> 48 \<le> (of_char c :: nat) \<and> (of_char c :: nat) \<le> 57"

definition digit_val :: "char \<Rightarrow> nat" where
  "digit_val c = of_char c - 48"

definition digit_char :: "nat \<Rightarrow> char" where
  "digit_char n = char_of (48 + n)"

text \<open>Decimal value of a digit string, most significant digit first.\<close>

definition nat_of_digits :: "string \<Rightarrow> nat" where
  "nat_of_digits ds = foldl (\<lambda>acc d. 10 * acc + digit_val d) 0 ds"

text \<open>Shortest decimal representation of a natural number (no leading zero).\<close>

fun show_nat :: "nat \<Rightarrow> string" where
  "show_nat n = (if n < 10 then [digit_char n] else show_nat (n div 10) @ [digit_char (n mod 10)])"

declare show_nat.simps [simp del]

text \<open>\<open>Array.prototype.join\<close> on strings: the separator between consecutive items.\<close>

fun join_with :: "string \<Rightarrow> string list \<Rightarrow> string" where
  "join_with sep [] = []"
| "join_with sep [x] = x"
| "join_with sep (x # y # zs) = x @ sep @ join_with sep (y # zs)"

subsection \<open>Lemmas on digits\<close>

lemma digit_char_less [simp]: "n < 10 \<Longrightarrow> is_digit (digit_char n)"
  by (simp add: is_digit_def digit_char_def)

lemma digit_val_char [simp]: "n < 10 \<Longrightarrow> digit_val (digit_char n) = n"
  by (simp add: digit_val_def digit_char_def)

lemma digit_char_inj [simp]: "n < 10 \<Longrightarrow> m < 10 \<Longrightarrow> digit_char n = digit_char m \<longleftrightarrow> n = m"
  by (metis digit_val_char)

lemma digit_val_less: "is_digit c \<Longrightarrow> digit_val c < 10"
  unfolding is_digit_def digit_val_def by linarith

lemma digit_char_0: "digit_char 0 = CHR ''0''"
  unfolding digit_char_def by code_simp

lemma digit_char_val: "is_digit c \<Longrightarrow> digit_char (digit_val c) = c"
  by (simp add: is_digit_def digit_val_def digit_char_def)

lemma nat_of_digits_Nil [simp]: "nat_of_digits [] = 0"
  by (simp add: nat_of_digits_def)

lemma nat_of_digits_single [simp]: "nat_of_digits [d] = digit_val d"
  by (simp add: nat_of_digits_def)

lemma nat_of_digits_snoc [simp]:
  "nat_of_digits (ds @ [d]) = 10 * nat_of_digits ds + digit_val d"
  by (simp add: nat_of_digits_def)

lemma foldl_digits_append:
  "foldl (\<lambda>acc d. 10 * acc + digit_val d) a ds =
   10 ^ length ds * a + foldl (\<lambda>acc d. 10 * acc + digit_val d) 0 ds"
proof (induction ds arbitrary: a)
  case Nil
  then show ?case by simp
next
  case (Cons d ds)
  let ?g = "\<lambda>acc d. 10 * acc + digit_val d"
  have "foldl ?g a (d # ds) = 10 ^ length ds * (10 * a + digit_val d) + foldl ?g 0 ds"
    using Cons.IH [of "10 * a + digit_val d"] by simp
  moreover have "foldl ?g 0 (d # ds) = 10 ^ length ds * digit_val d + foldl ?g 0 ds"
    using Cons.IH [of "digit_val d"] by simp
  ultimately show ?case by (simp add: algebra_simps)
qed

lemma nat_of_digits_append:
  "nat_of_digits (xs @ ys) = 10 ^ length ys * nat_of_digits xs + nat_of_digits ys"
  unfolding nat_of_digits_def by (subst foldl_append, rule foldl_digits_append)

lemma nat_of_digits_zeros [simp]: "nat_of_digits (replicate k (CHR ''0'')) = 0"
  by (induction k) (simp_all add: nat_of_digits_def digit_val_def)

lemma nat_of_digits_Cons:
  "nat_of_digits (d # ds) = 10 ^ length ds * digit_val d + nat_of_digits ds"
  using nat_of_digits_append [of "[d]" ds] by (simp add: nat_of_digits_def)

lemma nat_of_digits_lead_zeros [simp]:
  "nat_of_digits (replicate k (CHR ''0'') @ ds) = nat_of_digits ds"
  by (simp add: nat_of_digits_append)

lemma nat_of_digits_trail_zeros:
  "nat_of_digits (ds @ replicate k (CHR ''0'')) = 10 ^ k * nat_of_digits ds"
  by (simp add: nat_of_digits_append)

lemma nat_of_digits_less: "list_all is_digit ds \<Longrightarrow> nat_of_digits ds < 10 ^ length ds"
proof (induction ds rule: rev_induct)
  case Nil
  then show ?case by simp
next
  case (snoc d ds)
  then have "nat_of_digits ds < 10 ^ length ds" and "digit_val d < 10"
    by (simp_all add: digit_val_less)
  then show ?case by simp
qed

subsection \<open>Lemmas on \<open>show_nat\<close>\<close>

lemma show_nat_small [simp]: "n < 10 \<Longrightarrow> show_nat n = [digit_char n]"
  by (simp add: show_nat.simps)

lemma show_nat_big: "\<not> n < 10 \<Longrightarrow> show_nat n = show_nat (n div 10) @ [digit_char (n mod 10)]"
  by (simp add: show_nat.simps)

lemma show_nat_ne [simp]: "show_nat n \<noteq> []"
  by (cases "n < 10") (simp_all add: show_nat_big)

lemma show_nat_digits [simp]: "list_all is_digit (show_nat n)"
proof (induction n rule: show_nat.induct)
  case (1 n)
  then show ?case by (cases "n < 10") (simp_all add: show_nat_big)
qed

lemma nat_of_digits_show_nat [simp]: "nat_of_digits (show_nat n) = n"
proof (induction n rule: show_nat.induct)
  case (1 n)
  then show ?case by (cases "n < 10") (simp_all add: show_nat_big)
qed

lemma show_nat_hd: "0 < n \<Longrightarrow> hd (show_nat n) \<noteq> CHR ''0''"
proof (induction n rule: show_nat.induct)
  case (1 n)
  show ?case
  proof (cases "n < 10")
    case True
    with "1.prems" show ?thesis by (simp flip: digit_char_0)
  next
    case False
    then have "0 < n div 10" by simp
    with "1.IH" False show ?thesis by (simp add: show_nat_big)
  qed
qed

subsection \<open>Lemmas on \<open>join_with\<close>\<close>

lemma join_with_Cons: "xs \<noteq> [] \<Longrightarrow> join_with sep (x # xs) = x @ sep @ join_with sep xs"
  by (cases xs) simp_all

end
