(* ===== verification/JsValue.thy ===== *)
theory JsValue
  imports Prelude
begin

text \<open>
  The JavaScript values the server handles. Every value the program touches comes out of
  \<open>JSON.parse\<close> (the request body parsed by \<open>bodyParser.json()\<close>, and the data file read
  by \<open>readStudentData\<close>), so the values are JSON values: \<open>null\<close>, booleans, numbers,
  strings, arrays and plain objects, with the numbers \<open>JSON.parse\<close> can make (finite
  ones and the two infinities). This theory holds their datatype, the property order
  of ordinary objects (array-index keys first in ascending numeric order, then the other
  keys in insertion order), property insertion as \<open>JSON.parse\<close> performs it, property
  reads (\<open>obj.name\<close>, with \<open>undefined\<close> as \<open>None\<close>) and the truthiness test of \<open>!x\<close>.
\<close>

subsection \<open>Numbers\<close>

text \<open>
  A Number value is \<open>+Infinity\<close>, \<open>-Infinity\<close> or finite. A finite value is kept as an
  exact decimal \<open>Num m e\<close> with value \<open>m * 10 ^ e\<close>; its canonical form has no trailing zero
  in the mantissa (\<open>0\<close> is \<open>Num 0 0\<close>, and \<open>-0\<close>, which no part of the server tells apart
  from \<open>0\<close>, is \<open>0\<close> too); \<open>norm_num\<close> computes it.
\<close>

datatype jnum = Num int int | PosInf | NegInf

definition num_finite :: "jnum \<Rightarrow> bool" where
  "num_finite n = (case n of Num _ _ \<Rightarrow> True | _ \<Rightarrow> False)"

definition num_canon :: "jnum \<Rightarrow> bool" where
  "num_canon n = (case n of Num m e \<Rightarrow> if m = 0 then e = 0 else m mod 10 \<noteq> 0 | _ \<Rightarrow> False)"

function norm_num :: "int \<Rightarrow> int \<Rightarrow> jnum" where
  "norm_num m e = (if m = 0 then Num 0 0 else if m mod 10 = 0 then norm_num (m div 10) (e + 1) else Num m e)"
  by pat_completeness auto
termination
proof (relation "measure (\<lambda>(m, e). nat \<bar>m\<bar>)")
  fix m e :: int
  assume "m \<noteq> 0" and "m mod 10 = 0"
  then obtain q where "m = 10 * q" and "q \<noteq> 0" by (metis dvd_def mod_0_imp_dvd mult_zero_right)
  then show "((m div 10, e + 1), m, e) \<in> measure (\<lambda>(m, e). nat \<bar>m\<bar>)"
    by (simp add: abs_mult)
qed simp

declare norm_num.simps [simp del]

text \<open>
  The conversion of a decimal to a Number (\<open>RoundMVResult\<close>, round to nearest, ties to
  even): a magnitude of at least \<open>2 ^ 1024 - 2 ^ 970\<close>, half a unit in the last place above
  the largest double, becomes an infinity, and a magnitude of at most \<open>2 ^ -1075\<close>, half the
  smallest subnormal, becomes \<open>0\<close>. Between the two the value is kept exact: rounding it to
  the nearest double is not modelled (see the root theory).
\<close>

definition overflow_bound :: int where
  "overflow_bound = 2 ^ 1024 - 2 ^ 970"

definition underflow_bound_inv :: int where
  "underflow_bound_inv = 2 ^ 1075"

definition num_value :: "int \<Rightarrow> int \<Rightarrow> rat" where
  "num_value m e = of_int m * power_int 10 e"

definition num_overflows :: "int \<Rightarrow> int \<Rightarrow> bool" where
  "num_overflows m e \<longleftrightarrow> of_int overflow_bound \<le> \<bar>num_value m e\<bar>"

definition num_underflows :: "int \<Rightarrow> int \<Rightarrow> bool" where
  "num_underflows m e \<longleftrightarrow> \<bar>num_value m e\<bar> \<le> 1 / of_int underflow_bound_inv"

definition num_of_decimal :: "int \<Rightarrow> int \<Rightarrow> jnum" where
  "num_of_decimal m e =
     (if num_overflows m e then (if m < 0 then NegInf else PosInf)
      else if num_underflows m e then Num 0 0
      else norm_num m e)"

text \<open>The Numbers the server can hold: an infinity, or a canonical decimal in range.\<close>

definition num_ok :: "jnum \<Rightarrow> bool" where
  "num_ok n =
     (case n of
        Num m e \<Rightarrow> num_canon n \<and> \<not> num_overflows m e \<and> (m \<noteq> 0 \<longrightarrow> \<not> num_underflows m e)
      | _ \<Rightarrow> True)"

definition num_of_nat :: "nat \<Rightarrow> jnum" where
  "num_of_nat n = num_of_decimal (int n) 0"

subsection \<open>JSON values\<close>

datatype json =
    JNull
  | JBool bool
  | JNumber jnum
  | JString string
  | JArray "json list"
  | JObject "(string \<times> json) list"

subsection \<open>Property keys and the order of own properties\<close>

text \<open>
  An array index is the canonical decimal string of an integer below \<open>2 ^ 32 - 1\<close>
  (ECMAScript, \<open>CanonicalNumericIndexString\<close> and the array-index rule).
\<close>

definition is_array_index :: "string \<Rightarrow> bool" where
  "is_array_index k \<longleftrightarrow>
     k \<noteq> [] \<and> list_all is_digit k \<and> (k = ''0'' \<or> hd k \<noteq> CHR ''0'') \<and>
     nat_of_digits k < 4294967295"

text \<open>
  \<open>OrdinaryOwnPropertyKeys\<close>: array-index keys in ascending numeric order, then the other
  string keys in creation order. A key list is ordered when it already has this shape.
\<close>

fun keys_ordered :: "string list \<Rightarrow> bool" where
  "keys_ordered [] = True"
| "keys_ordered (k # ks) \<longleftrightarrow>
     k \<notin> set ks \<and> keys_ordered ks \<and>
     (if is_array_index k
      then list_all (\<lambda>k'. is_array_index k' \<longrightarrow> nat_of_digits k < nat_of_digits k') ks
      else list_all (\<lambda>k'. \<not> is_array_index k') ks)"

text \<open>Creating a new array-index property: it goes among the index keys by numeric value.\<close>

fun insert_index :: "string \<Rightarrow> json \<Rightarrow> (string \<times> json) list \<Rightarrow> (string \<times> json) list" where
  "insert_index k v [] = [(k, v)]"
| "insert_index k v ((k', v') # ps) =
     (if is_array_index k' \<and> nat_of_digits k' < nat_of_digits k
      then (k', v') # insert_index k v ps else (k, v) # (k', v') # ps)"

text \<open>
  \<open>CreateDataProperty\<close> on an ordinary extensible object, as \<open>JSON.parse\<close> calls it for
  each member: an existing key keeps its position and takes the new value; a new key is
  placed by the own-property order.
\<close>

definition obj_set :: "string \<Rightarrow> json \<Rightarrow> (string \<times> json) list \<Rightarrow> (string \<times> json) list" where
  "obj_set k v ps =
     (if k \<in> set (map fst ps) then map (\<lambda>p. if fst p = k then (k, v) else p) ps
      else if is_array_index k then insert_index k v ps
      else ps @ [(k, v)])"

definition build_obj :: "(string \<times> json) list \<Rightarrow> (string \<times> json) list" where
  "build_obj ps = foldl (\<lambda>acc (k, v). obj_set k v acc) [] ps"

subsection \<open>Well-formed values\<close>

text \<open>Every value \<open>JSON.parse\<close> returns has Numbers in range and ordered object keys.\<close>

fun wf_json :: "json \<Rightarrow> bool" where
  "wf_json (JNumber n) = num_ok n"
| "wf_json (JArray xs) = list_all wf_json xs"
| "wf_json (JObject ps) = (keys_ordered (map fst ps) \<and> list_all (\<lambda>p. wf_json (snd p)) ps)"
| "wf_json _ = True"

subsection \<open>Property reads and truthiness\<close>

text \<open>
  \<open>v.k\<close> for the values the handlers read from: an object's own property, an array's
  \<open>length\<close> or element. \<open>None\<close> is \<open>undefined\<close>. The keys the program reads (\<open>name\<close>,
  \<open>email\<close>, \<open>course\<close>, \<open>score\<close>, \<open>maxScore\<close>, \<open>username\<close>, \<open>password\<close>) are not
  properties of \<open>Object.prototype\<close> or \<open>Array.prototype\<close>, so the prototype chain adds
  nothing for them. Of primitive receivers only a string's \<open>length\<close> is modelled (the
  server reads \<open>allData.length\<close> of whatever the data file holds); it counts bytes, which is
  JavaScript's count of UTF-16 units for ASCII text.
\<close>

definition js_get :: "json \<Rightarrow> string \<Rightarrow> json option" where
  "js_get v k =
     (case v of
        JObject ps \<Rightarrow> map_of ps k
      | JArray xs \<Rightarrow>
          if k = ''length'' then Some (JNumber (num_of_nat (length xs)))
          else if is_array_index k \<and> nat_of_digits k < length xs then Some (xs ! nat_of_digits k)
          else None
      | JString s \<Rightarrow> if k = ''length'' then Some (JNumber (num_of_nat (length s))) else None
      | _ \<Rightarrow> None)"

text \<open>\<open>ToBoolean\<close>: \<open>undefined\<close>, \<open>null\<close>, \<open>false\<close>, \<open>0\<close> and \<open>''''\<close> are falsy.\<close>

fun js_truthy :: "json option \<Rightarrow> bool" where
  "js_truthy None = False"
| "js_truthy (Some JNull) = False"
| "js_truthy (Some (JBool b)) = b"
| "js_truthy (Some (JNumber (Num m e))) = (m \<noteq> 0)"
| "js_truthy (Some (JNumber PosInf)) = True"
| "js_truthy (Some (JNumber NegInf)) = True"
| "js_truthy (Some (JString s)) = (s \<noteq> [])"
| "js_truthy (Some (JArray xs)) = True"
| "js_truthy (Some (JObject ps)) = True"

text \<open>\<open>typeof x === 'undefined'\<close>: JSON values are never \<open>undefined\<close>, only absent.\<close>

definition js_is_undefined :: "json option \<Rightarrow> bool" where
  "js_is_undefined x \<longleftrightarrow> x = None"

subsection \<open>Exceptions and \<open>Array.prototype.push\<close>\<close>

datatype js_error = TypeError | RangeError

text \<open>
  \<open>a.push(x)\<close>: on an array, appends and returns the new contents; an array already at the
  maximal length \<open>2 ^ 32 - 1\<close> cannot grow (\<open>RangeError: Invalid array length\<close>); any
  other receiver has no \<open>push\<close> method (\<open>TypeError\<close>, also for \<open>null\<close>).
\<close>

definition js_push :: "json \<Rightarrow> json \<Rightarrow> js_error + json list" where
  "js_push a x =
     (case a of
        JArray xs \<Rightarrow> if length xs < 4294967295 then Inr (xs @ [x]) else Inl RangeError
      | _ \<Rightarrow> Inl TypeError)"

text \<open>A property in an object literal whose value is \<open>undefined\<close> is left out by \<open>JSON.stringify\<close>.\<close>

definition js_prop :: "string \<Rightarrow> json option \<Rightarrow> (string \<times> json) list" where
  "js_prop k x = (case x of None \<Rightarrow> [] | Some v \<Rightarrow> [(k, v)])"

subsection \<open>Numbers: range, conversion and canonical form\<close>

lemma overflow_bound_code [code]: "overflow_bound = 179769313486231580793728971405303415079934132710037826936173778980444968292764750946649017977587207096330286416692887910946555547851940402630657488671505820681908902000708383676273854845817711531764475730270069855571366959622842914819860834936475292719074168444365510704342711559699508093042880177904174497792"
  by (simp add: overflow_bound_def)

lemma underflow_bound_inv_code [code]: "underflow_bound_inv = 404804506614621236704990693437834614099113299528284236713802716054860679135990693783920767402874248990374155728633623822779617474771586953734026799881477019843034848553132722728933815484186432682479535356945490137124014966849385397236206711298319112681620113024717539104666829230461005064372655017292012526615415482186989568"
  by (simp add: underflow_bound_inv_def)

lemma underflow_bound_pos: "0 < underflow_bound_inv"
  by (simp add: underflow_bound_inv_def)

lemma num_value_nonneg_exp: "0 \<le> e \<Longrightarrow> num_value m e = of_int (m * 10 ^ nat e)"
  by (simp add: num_value_def power_int_def)

lemma num_value_neg_exp: "e < 0 \<Longrightarrow> num_value m e = of_int m / of_int (10 ^ nat (- e))"
proof -
  assume "e < 0"
  then have "power_int (10::rat) e = inverse 10 ^ nat (- e)"
    unfolding power_int_def by (simp only: not_le [symmetric] if_False)
  then show ?thesis
    unfolding num_value_def by (simp only: power_inverse divide_inverse of_int_power of_int_numeral)
qed

lemma abs_num_value:
  "\<bar>num_value m e\<bar> = (if 0 \<le> e then of_int (\<bar>m\<bar> * 10 ^ nat e) else of_int \<bar>m\<bar> / of_int (10 ^ nat (- e)))"
proof (cases "0 \<le> e")
  case True
  then show ?thesis by (simp only: num_value_nonneg_exp of_int_abs [symmetric] abs_mult power_abs abs_numeral if_True)
next
  case False
  then show ?thesis by (simp add: num_value_neg_exp abs_divide del: of_int_power)
qed

lemma num_overflows_code [code]:
  "num_overflows m e =
     (if 0 \<le> e then overflow_bound \<le> \<bar>m\<bar> * 10 ^ nat e
      else (overflow_bound) * 10 ^ nat (- e) \<le> \<bar>m\<bar>)"
proof (cases "0 \<le> e")
  case True
  then show ?thesis unfolding num_overflows_def abs_num_value by (simp only: of_int_le_iff if_True)
next
  case False
  have "(0::rat) < of_int (10 ^ nat (- e))" by simp
  then have "(of_int (overflow_bound) \<le> (of_int \<bar>m\<bar> :: rat) / of_int (10 ^ nat (- e))) \<longleftrightarrow>
      of_int ((overflow_bound) * 10 ^ nat (- e)) \<le> (of_int \<bar>m\<bar> :: rat)"
    by (simp only: pos_le_divide_eq of_int_mult)
  with False show ?thesis unfolding num_overflows_def abs_num_value by (simp only: of_int_le_iff if_False)
qed

lemma div_le_inverse_iff: "0 < d \<Longrightarrow> 0 < p \<Longrightarrow> (a / d \<le> 1 / p) = (a * p \<le> (d::rat))"
  by (simp add: field_simps)

lemma num_underflows_code [code]:
  "num_underflows m e = (if 0 \<le> e then m = 0 else \<bar>m\<bar> * underflow_bound_inv \<le> 10 ^ nat (- e))"
proof (cases "0 \<le> e")
  case True
  have "(of_int (\<bar>m\<bar> * 10 ^ nat e) \<le> (1 / of_int underflow_bound_inv :: rat)) \<longleftrightarrow> m = 0"
  proof
    assume le: "of_int (\<bar>m\<bar> * 10 ^ nat e) \<le> (1 / of_int underflow_bound_inv :: rat)"
    have "(1 / of_int underflow_bound_inv :: rat) < 1" by (simp add: underflow_bound_inv_def)
    with le have "\<bar>m\<bar> * 10 ^ nat e < 1"
      using le_less_trans of_int_less_1_iff by blast
    then have "\<bar>m\<bar> * 10 ^ nat e \<le> 0" by linarith
    moreover have "(0::int) < 10 ^ nat e" by simp
    ultimately show "m = 0" by (simp add: mult_le_0_iff)
  qed (simp add: order_less_imp_le [OF underflow_bound_pos])
  with True show ?thesis unfolding num_underflows_def abs_num_value by (simp only: if_True)
next
  case False
  have "(0::rat) < of_int (10 ^ nat (- e))" by simp
  then have "((of_int \<bar>m\<bar> :: rat) / of_int (10 ^ nat (- e)) \<le> 1 / of_int underflow_bound_inv) \<longleftrightarrow>
      (of_int (\<bar>m\<bar> * underflow_bound_inv) :: rat) \<le> of_int (10 ^ nat (- e))"
    by (simp only: div_le_inverse_iff underflow_bound_pos of_int_mult of_int_0_less_iff)
  with False show ?thesis unfolding num_underflows_def abs_num_value by (simp only: of_int_le_iff if_False)
qed


lemma norm_num_canon: "num_canon (norm_num m e)"
proof (induction m e rule: norm_num.induct)
  case (1 m e)
  then show ?case by (subst norm_num.simps) (auto simp: num_canon_def)
qed

lemma norm_num_id: "num_canon (Num m e) \<Longrightarrow> norm_num m e = Num m e"
  by (subst norm_num.simps) (auto simp: num_canon_def)

lemma norm_num_times10: "m \<noteq> 0 \<Longrightarrow> norm_num (m * 10) (e - 1) = norm_num m e"
  by (subst norm_num.simps) simp

lemma norm_num_scale: "norm_num (m * 10 ^ k) (e - int k) = norm_num m e"
proof (induction k arbitrary: m e)
  case 0
  then show ?case by simp
next
  case (Suc k)
  show ?case
  proof (cases "m = 0")
    case True
    then show ?thesis by (simp add: norm_num.simps [of 0])
  next
    case False
    have "norm_num (m * 10 ^ Suc k) (e - int (Suc k)) = norm_num ((m * 10) * 10 ^ k) ((e - 1) - int k)"
      by (simp add: algebra_simps)
    also have "\<dots> = norm_num (m * 10) (e - 1)" by (rule Suc.IH)
    also have "\<dots> = norm_num m e" using False by (rule norm_num_times10)
    finally show ?thesis .
  qed
qed

text \<open>Scaling the mantissa against the exponent keeps the value, so the range checks and the
  conversion depend only on the value of the decimal.\<close>

lemma num_value_scale: "num_value (m * 10 ^ k) (e - int k) = num_value m e"
proof -
  have "power_int (10::rat) (e - int k) = power_int 10 e / 10 ^ k"
    by (simp add: power_int_diff)
  then show ?thesis by (simp add: num_value_def)
qed

lemma num_value_zero [simp]: "num_value 0 e = 0"
  by (simp add: num_value_def)

lemma num_overflows_zero [simp]: "\<not> num_overflows 0 e"
  by (simp add: num_overflows_def overflow_bound_def)

lemma num_underflows_zero [simp]: "num_underflows 0 e"
  by (simp add: num_underflows_def underflow_bound_inv_def)

lemma norm_num_Num:
  "\<exists>m' e'. norm_num m e = Num m' e' \<and> num_value m' e' = num_value m e \<and> (m' = 0 \<longleftrightarrow> m = 0)"
proof (induction m e rule: norm_num.induct)
  case (1 m e)
  show ?case
  proof (cases "m \<noteq> 0 \<and> m mod 10 = 0")
    case True
    then have m: "m = (m div 10) * 10 ^ 1" and e: "e = (e + 1) - int 1" using div_mult_mod_eq [of m 10] by simp_all
    have "num_value (m div 10) (e + 1) = num_value m e"
      by (subst (2) m, subst (2) e) (rule num_value_scale [symmetric])
    moreover have "m div 10 \<noteq> 0" using True by auto
    ultimately show ?thesis using 1 True by (subst norm_num.simps) simp
  next
    case False
    then show ?thesis by (subst norm_num.simps) auto
  qed
qed

lemma num_of_decimal_ok: "num_ok (num_of_decimal m e)"
proof -
  obtain m' e' where n: "norm_num m e = Num m' e'" and v: "num_value m' e' = num_value m e"
      and z: "m' = 0 \<longleftrightarrow> m = 0"
    using norm_num_Num by blast
  have "num_canon (Num m' e')" using norm_num_canon [of m e] by (simp add: n)
  with v z show ?thesis
    by (auto simp: num_of_decimal_def num_ok_def n num_canon_def num_overflows_def num_underflows_def)
qed

lemma num_of_decimal_id: "num_ok (Num m e) \<Longrightarrow> num_of_decimal m e = Num m e"
  by (auto simp: num_ok_def num_of_decimal_def num_canon_def norm_num_id)

lemma num_of_decimal_scale: "num_of_decimal (m * 10 ^ k) (e - int k) = num_of_decimal m e"
proof -
  have "m * 10 ^ k < 0 \<longleftrightarrow> m < 0" by (simp add: mult_less_0_iff)
  then show ?thesis
    by (simp add: num_of_decimal_def num_overflows_def num_underflows_def num_value_scale norm_num_scale)
qed

subsection \<open>Array-index keys are canonical\<close>

lemma canonical_digits:
  "ds \<noteq> [] \<Longrightarrow> list_all is_digit ds \<Longrightarrow> ds = ''0'' \<or> hd ds \<noteq> CHR ''0'' \<Longrightarrow>
   show_nat (nat_of_digits ds) = ds"
proof (induction ds rule: rev_induct)
  case Nil
  then show ?case by simp
next
  case (snoc d xs)
  show ?case
  proof (cases "xs = []")
    case True
    with snoc.prems show ?thesis by (simp add: digit_val_less digit_char_val)
  next
    case False
    have hd: "hd xs \<noteq> CHR ''0''" using snoc.prems False by (auto simp: hd_append)
    have xs: "list_all is_digit xs" "is_digit d" using snoc.prems by simp_all
    have "xs = ''0'' \<or> hd xs \<noteq> CHR ''0''" using hd by simp
    with False xs snoc.IH have IH: "show_nat (nat_of_digits xs) = xs" by simp
    have "0 < nat_of_digits xs"
    proof (rule ccontr)
      assume "\<not> 0 < nat_of_digits xs"
      then have "nat_of_digits xs = 0" by simp
      then have "show_nat 0 = xs" using IH by simp
      with hd show False by (auto simp: digit_char_0)
    qed
    then have "\<not> nat_of_digits (xs @ [d]) < 10" by simp
    then show ?thesis
      using IH xs by (simp add: show_nat_big digit_val_less digit_char_val)
  qed
qed

lemma array_index_inj:
  "is_array_index a \<Longrightarrow> is_array_index b \<Longrightarrow> nat_of_digits a = nat_of_digits b \<Longrightarrow> a = b"
  by (metis canonical_digits is_array_index_def)

lemma map_fst_update [simp]: "map fst (map (\<lambda>p. if fst p = k then (k, v) else p) ps) = map fst ps"
  by (induction ps) auto

lemma set_insert_index [simp]: "set (insert_index k v ps) = insert (k, v) (set ps)"
  by (induction k v ps rule: insert_index.induct) auto

lemma keys_obj_set_old: "k \<in> set (map fst ps) \<Longrightarrow> map fst (obj_set k v ps) = map fst ps"
  unfolding obj_set_def by (simp del: map_map)

lemma keys_obj_set: "set (map fst (obj_set k v ps)) = insert k (set (map fst ps))"
proof (cases "k \<in> set (map fst ps)")
  case True
  then show ?thesis by (simp add: keys_obj_set_old insert_absorb del: set_map)
next
  case False
  then show ?thesis by (auto simp: obj_set_def)
qed

lemma keys_ordered_insert_index:
  "keys_ordered (map fst ps) \<Longrightarrow> is_array_index k \<Longrightarrow> k \<notin> set (map fst ps) \<Longrightarrow>
   keys_ordered (map fst (insert_index k v ps))"
proof (induction ps)
  case Nil
  then show ?case by simp
next
  case (Cons p ps)
  obtain k' v' where p: "p = (k', v')" by fastforce
  show ?case
  proof (cases "is_array_index k' \<and> nat_of_digits k' < nat_of_digits k")
    case True
    with Cons p show ?thesis by (auto simp: list_all_iff)
  next
    case False
    note notlt = False
    have "k \<noteq> k'" using Cons.prems p by simp
    then have neq: "is_array_index k' \<Longrightarrow> nat_of_digits k \<noteq> nat_of_digits k'"
      using Cons.prems(2) array_index_inj by blast
    have ord: "keys_ordered (k' # map fst ps)" using Cons.prems p by simp
    have lt: "nat_of_digits k < nat_of_digits x"
      if x: "x \<in> set (k' # map fst ps)" and idx: "is_array_index x" for x
    proof (cases "is_array_index k'")
      case True
      then have "nat_of_digits k < nat_of_digits k'" using False neq by auto
      with ord x idx True show ?thesis by (auto simp: list_all_iff)
    next
      case False
      with ord x idx show ?thesis by (auto simp: list_all_iff)
    qed
    from notlt have "insert_index k v (p # ps) = (k, v) # (k', v') # ps" by (auto simp: p)
    with lt ord Cons.prems p show ?thesis by (auto simp: list_all_iff)
  qed
qed

lemma keys_ordered_snoc:
  "keys_ordered ks \<Longrightarrow> \<not> is_array_index k \<Longrightarrow> k \<notin> set ks \<Longrightarrow> keys_ordered (ks @ [k])"
  by (induction ks) auto

lemma keys_ordered_obj_set:
  assumes "keys_ordered (map fst ps)"
  shows "keys_ordered (map fst (obj_set k v ps))"
proof (cases "k \<in> set (map fst ps)")
  case True
  with assms show ?thesis by (simp add: keys_obj_set_old del: set_map)
next
  case False
  with assms show ?thesis by (simp add: obj_set_def keys_ordered_insert_index keys_ordered_snoc)
qed

lemma keys_ordered_appendD: "keys_ordered (xs @ ys) \<Longrightarrow> keys_ordered xs"
  by (induction xs) (auto simp: list_all_iff)

lemma insert_index_last:
  "\<forall>p \<in> set ps. is_array_index (fst p) \<and> nat_of_digits (fst p) < nat_of_digits k \<Longrightarrow>
   insert_index k v ps = ps @ [(k, v)]"
  by (induction ps) auto

lemma keys_ordered_distinct: "keys_ordered ks \<Longrightarrow> distinct ks"
  by (induction ks) auto

lemma keys_ordered_snoc_index:
  "keys_ordered (ks @ [k]) \<Longrightarrow> is_array_index k \<Longrightarrow>
   \<forall>a \<in> set ks. is_array_index a \<and> nat_of_digits a < nat_of_digits k"
proof (induction ks)
  case Nil
  then show ?case by simp
next
  case (Cons a ks)
  then have "is_array_index a" by (auto split: if_splits)
  with Cons show ?case by auto
qed

lemma build_obj_snoc: "build_obj (ps @ [(k, v)]) = obj_set k v (build_obj ps)"
  by (simp add: build_obj_def)

lemma build_obj_ordered: "keys_ordered (map fst ps) \<Longrightarrow> build_obj ps = ps"
proof (induction ps rule: rev_induct)
  case Nil
  then show ?case by (simp add: build_obj_def)
next
  case (snoc p ps)
  obtain k v where p: "p = (k, v)" by fastforce
  have ord: "keys_ordered (map fst ps @ [k])" using snoc.prems p by simp
  then have "build_obj ps = ps" using snoc.IH keys_ordered_appendD by blast
  moreover have "k \<notin> set (map fst ps)"
    using keys_ordered_distinct [OF ord] by simp
  moreover have "is_array_index k \<Longrightarrow> insert_index k v ps = ps @ [(k, v)]"
    using keys_ordered_snoc_index [OF ord] by (auto intro: insert_index_last)
  ultimately show ?case by (simp add: build_obj_snoc p obj_set_def)
qed

lemma map_of_update_at:
  "map_of (map (\<lambda>p. if fst p = k then (k, v) else p) ps) x =
   (if x = k then (if k \<in> set (map fst ps) then Some v else None) else map_of ps x)"
  by (induction ps) (auto simp: rev_image_eqI)

lemma map_of_insert_index:
  "k \<notin> set (map fst ps) \<Longrightarrow> map_of (insert_index k v ps) = (map_of ps)(k \<mapsto> v)"
  by (induction k v ps rule: insert_index.induct) (auto simp: fun_eq_iff)

lemma map_of_obj_set: "map_of (obj_set k v ps) = (map_of ps)(k \<mapsto> v)"
proof (rule ext)
  fix x
  show "map_of (obj_set k v ps) x = ((map_of ps)(k \<mapsto> v)) x"
  proof (cases "k \<in> set (map fst ps)")
    case True
    then show ?thesis by (simp add: obj_set_def map_of_update_at del: set_map)
  next
    case False
    then have "map_of ps k = None" by (simp add: map_of_eq_None_iff)
    with False show ?thesis
      by (auto simp: obj_set_def map_of_insert_index map_add_def split: option.splits)
  qed
qed

end
