(* ===== verification/JsonNumber.thy ===== *)
theory JsonNumber
  imports JsValue
begin

text \<open>
  Numbers in JSON text. \<open>num_to_string\<close> is ECMAScript's \<open>Number::toString\<close>
  (what \<open>JSON.stringify\<close> writes for a finite number and \<open>String(x)\<close> gives for any);
  \<open>lex_number\<close> is the number rule of \<open>JSON.parse\<close>
  (\<open>-? (0 | [1-9][0-9]*) (. [0-9]+)? ([eE] [+-]? [0-9]+)?\<close>) followed by the conversion
  \<open>num_of_decimal\<close> of the decimal it reads. The main lemma is that the lexer reads back every
  finite Number in range that the printer writes.
\<close>

subsection \<open>Printing: \<open>Number::toString\<close>\<close>

text \<open>
  For a positive value with shortest digit string \<open>s\<close> (\<open>k\<close> digits) and decimal point
  position \<open>n = k + e\<close>, the five cases of the ECMAScript algorithm.
\<close>

definition exp_suffix :: "int \<Rightarrow> string" where
  "exp_suffix x = (if 0 \<le> x then ''+'' else ''-'') @ show_nat (nat \<bar>x\<bar>)"

definition digits_to_string :: "string \<Rightarrow> int \<Rightarrow> string" where
  "digits_to_string s e =
     (let k = int (length s); n = k + e in
      if k \<le> n \<and> n \<le> 21 then s @ replicate (nat (n - k)) CHR ''0''
      else if 0 < n \<and> n \<le> 21 then take (nat n) s @ ''.'' @ drop (nat n) s
      else if -6 < n \<and> n \<le> 0 then ''0.'' @ replicate (nat (- n)) CHR ''0'' @ s
      else if k = 1 then s @ ''e'' @ exp_suffix (n - 1)
      else [hd s] @ ''.'' @ tl s @ ''e'' @ exp_suffix (n - 1))"

definition num_to_string :: "jnum \<Rightarrow> string" where
  "num_to_string x =
     (case x of
        Num m e \<Rightarrow>
          if m = 0 then ''0''
          else (if m < 0 then ''-'' else []) @ digits_to_string (show_nat (nat \<bar>m\<bar>)) e
      | PosInf \<Rightarrow> ''Infinity''
      | NegInf \<Rightarrow> ''-Infinity'')"

subsection \<open>Lexing: the number rule of \<open>JSON.parse\<close>\<close>

definition lex_int :: "string \<Rightarrow> (string \<times> string) option" where
  "lex_int s =
     (case s of
        [] \<Rightarrow> None
      | c # r \<Rightarrow>
          if c = CHR ''0'' then Some (''0'', r)
          else if is_digit c then Some (c # takeWhile is_digit r, dropWhile is_digit r)
          else None)"

definition lex_frac :: "string \<Rightarrow> (string \<times> string) option" where
  "lex_frac s =
     (case s of
        [] \<Rightarrow> Some ([], [])
      | c # r \<Rightarrow>
          if c = CHR ''.'' then
            (if takeWhile is_digit r = [] then None
             else Some (takeWhile is_digit r, dropWhile is_digit r))
          else Some ([], s))"

definition exp_sign :: "string \<Rightarrow> bool \<times> string" where
  "exp_sign s =
     (case s of
        [] \<Rightarrow> (False, [])
      | d # r \<Rightarrow>
          if d = CHR ''-'' then (True, r) else if d = CHR ''+'' then (False, r) else (False, s))"

definition lex_exp :: "string \<Rightarrow> (int \<times> string) option" where
  "lex_exp s =
     (case s of
        [] \<Rightarrow> Some (0, [])
      | c # r \<Rightarrow>
          if c = CHR ''e'' \<or> c = CHR ''E'' then
            (case exp_sign r of (neg, r') \<Rightarrow>
               if takeWhile is_digit r' = [] then None
               else
                 (let x = int (nat_of_digits (takeWhile is_digit r')) in
                  Some (if neg then - x else x, dropWhile is_digit r')))
          else Some (0, s))"

text \<open>The unsigned part: the digits' value and the decimal exponent they stand for.\<close>

definition lex_mag :: "string \<Rightarrow> (nat \<times> int \<times> string) option" where
  "lex_mag s =
     (case lex_int s of
        None \<Rightarrow> None
      | Some (ip, s2) \<Rightarrow>
          (case lex_frac s2 of
             None \<Rightarrow> None
           | Some (fp, s3) \<Rightarrow>
               (case lex_exp s3 of
                  None \<Rightarrow> None
                | Some (ex, s4) \<Rightarrow> Some (nat_of_digits (ip @ fp), ex - int (length fp), s4))))"

definition lex_number :: "string \<Rightarrow> (jnum \<times> string) option" where
  "lex_number s =
     (let (neg, s1) = (case s of
                         [] \<Rightarrow> (False, [])
                       | c # r \<Rightarrow> if c = CHR ''-'' then (True, r) else (False, s))
      in case lex_mag s1 of
           None \<Rightarrow> None
         | Some (mag, ex, s4) \<Rightarrow> Some (num_of_decimal (if neg then - int mag else int mag) ex, s4))"

text \<open>What may follow a number so that the lexer stops at its end.\<close>

definition num_follow :: "string \<Rightarrow> bool" where
  "num_follow r \<longleftrightarrow>
     r = [] \<or> (\<not> is_digit (hd r) \<and> hd r \<noteq> CHR ''.'' \<and> hd r \<noteq> CHR ''e'' \<and> hd r \<noteq> CHR ''E'')"

definition digit_stop :: "string \<Rightarrow> bool" where
  "digit_stop r \<longleftrightarrow> r = [] \<or> \<not> is_digit (hd r)"

subsection \<open>The lexer reads back what the printer writes\<close>

lemma not_digit_chars [simp]:
  "\<not> is_digit CHR ''.''" "\<not> is_digit CHR ''e''" "\<not> is_digit CHR ''E''"
  "\<not> is_digit CHR ''-''" "\<not> is_digit CHR ''+''"
  by (simp_all add: is_digit_def)

lemma is_digit_0 [simp]: "is_digit CHR ''0''"
  by (simp add: is_digit_def)

lemma takeWhile_digits:
  "list_all is_digit ds \<Longrightarrow> digit_stop r \<Longrightarrow> takeWhile is_digit (ds @ r) = ds"
  by (induction ds) (cases r; auto simp: digit_stop_def)+

lemma dropWhile_digits:
  "list_all is_digit ds \<Longrightarrow> digit_stop r \<Longrightarrow> dropWhile is_digit (ds @ r) = r"
  by (induction ds) (cases r; auto simp: digit_stop_def)+

lemma num_follow_stop: "num_follow r \<Longrightarrow> digit_stop r"
  by (auto simp: num_follow_def digit_stop_def)

lemma lex_frac_none: "num_follow r \<Longrightarrow> lex_frac r = Some ([], r)"
  by (cases r) (auto simp: num_follow_def lex_frac_def)

lemma lex_exp_none: "num_follow r \<Longrightarrow> lex_exp r = Some (0, r)"
  by (cases r) (auto simp: num_follow_def lex_exp_def)

lemma lex_exp_suffix:
  "digit_stop r \<Longrightarrow> lex_exp (CHR ''e'' # exp_suffix x @ r) = Some (x, r)"
  by (auto simp: lex_exp_def exp_suffix_def exp_sign_def takeWhile_digits dropWhile_digits)

lemma lex_int_lead:
  "c \<noteq> CHR ''0'' \<Longrightarrow> is_digit c \<Longrightarrow> list_all is_digit ds \<Longrightarrow> digit_stop r \<Longrightarrow>
   lex_int (c # ds @ r) = Some (c # ds, r)"
  by (simp add: lex_int_def takeWhile_digits dropWhile_digits)

lemma lex_frac_digits:
  "ds \<noteq> [] \<Longrightarrow> list_all is_digit ds \<Longrightarrow> digit_stop r \<Longrightarrow>
   lex_frac (CHR ''.'' # ds @ r) = Some (ds, r)"
  by (simp add: lex_frac_def takeWhile_digits dropWhile_digits)

lemma digit_stop_e: "digit_stop (CHR ''e'' # r)" and digit_stop_dot: "digit_stop (CHR ''.'' # r)"
  by (simp_all add: digit_stop_def)

lemma lex_frac_e: "lex_frac (CHR ''e'' # r) = Some ([], CHR ''e'' # r)"
  by (simp add: lex_frac_def)

lemma digits_to_string_A:
  "s \<noteq> [] \<Longrightarrow> 0 \<le> e \<Longrightarrow> int (length s) + e \<le> 21 \<Longrightarrow>
   digits_to_string s e = s @ replicate (nat e) CHR ''0''"
  by (simp add: digits_to_string_def Let_def)

lemma digits_to_string_B:
  "e < 0 \<Longrightarrow> 0 < int (length s) + e \<Longrightarrow> int (length s) + e \<le> 21 \<Longrightarrow>
   digits_to_string s e =
     take (nat (int (length s) + e)) s @ ''.'' @ drop (nat (int (length s) + e)) s"
  by (simp add: digits_to_string_def Let_def)

lemma digits_to_string_C:
  "s \<noteq> [] \<Longrightarrow> -6 < int (length s) + e \<Longrightarrow> int (length s) + e \<le> 0 \<Longrightarrow>
   digits_to_string s e = ''0.'' @ replicate (nat (- (int (length s) + e))) CHR ''0'' @ s"
  by (cases s) (simp_all add: digits_to_string_def Let_def)

lemma digits_to_string_D:
  "length s = 1 \<Longrightarrow> int (length s) + e \<le> -6 \<or> 21 < int (length s) + e \<Longrightarrow>
   digits_to_string s e = s @ ''e'' @ exp_suffix (int (length s) + e - 1)"
  by (auto simp: digits_to_string_def Let_def)

lemma digits_to_string_E:
  "1 < length s \<Longrightarrow> int (length s) + e \<le> -6 \<or> 21 < int (length s) + e \<Longrightarrow>
   digits_to_string s e = [hd s] @ ''.'' @ tl s @ ''e'' @ exp_suffix (int (length s) + e - 1)"
  by (auto simp: digits_to_string_def Let_def)

lemma digit_val_0 [simp]: "digit_val CHR ''0'' = 0"
  by (simp add: digit_val_def)

lemma list_all_digit_zeros [simp]: "list_all is_digit (replicate n CHR ''0'')"
  by (simp add: list_all_iff)

lemma lex_mag_minus: "lex_mag (CHR ''-'' # t) = None"
  by (simp add: lex_mag_def lex_int_def)

lemma lex_number_unsigned:
  "lex_mag s = Some (mag, ex, r) \<Longrightarrow> lex_number s = Some (num_of_decimal (int mag) ex, r)"
  by (cases s) (auto simp: lex_number_def lex_mag_minus)

lemma lex_number_neg:
  "lex_mag s = Some (mag, ex, r) \<Longrightarrow> lex_number (CHR ''-'' # s) = Some (num_of_decimal (- int mag) ex, r)"
  by (simp add: lex_number_def)

text \<open>
  The five layouts of \<open>Number::toString\<close> (\<open>digits_to_string\<close>) lexed back, for a digit
  string \<open>s = c # cs\<close> without leading zero followed by a text that may follow a number;
  \<open>n\<close> is the position of the decimal point, \<open>length s + e\<close>.
\<close>

lemma lex_mag_layout_A:
  assumes s: "s = c # cs" "c \<noteq> CHR ''0''" "is_digit c" "list_all is_digit cs" and r: "num_follow r"
    and A: "0 \<le> e" "int (length s) + e \<le> 21"
  shows "lex_mag (digits_to_string s e @ r) = Some (nat_of_digits s * 10 ^ nat e, e - int (nat e), r)"
proof -
  define z where "z = replicate (nat e) CHR ''0''"
  have "digits_to_string s e = s @ z"
    using A digits_to_string_A [of s e] by (simp add: s z_def)
  then have "digits_to_string s e @ r = c # (cs @ z) @ r" by (simp add: s)
  moreover have "lex_int (c # (cs @ z) @ r) = Some (c # cs @ z, r)"
    using s num_follow_stop [OF r] lex_int_lead [of c "cs @ z" r] by (simp add: z_def)
  moreover have "nat_of_digits (c # cs @ z) = nat_of_digits s * 10 ^ nat e"
    by (simp add: z_def s nat_of_digits_trail_zeros flip: append_Cons)
  ultimately show ?thesis using A r by (simp add: lex_mag_def lex_frac_none lex_exp_none)
qed

lemma lex_mag_layout_B:
  assumes s: "s = c # cs" "c \<noteq> CHR ''0''" "is_digit c" "list_all is_digit cs" and r: "num_follow r"
    and B: "e < 0" "0 < int (length s) + e" "int (length s) + e \<le> 21"
  shows "lex_mag (digits_to_string s e @ r) = Some (nat_of_digits s * 10 ^ 0, e - int 0, r)"
proof -
  define i where "i = nat (int (length s) + e)"
  have i: "0 < i" "i < length s" using B by (simp_all add: i_def)
  obtain ds where ds: "take i s = c # ds" using i by (cases i) (simp_all add: s)
  define fs where "fs = drop i s"
  have dig: "list_all is_digit s" using s by simp
  have "list_all is_digit (take i s)" using dig by (auto simp: list_all_iff dest: in_set_takeD)
  then have dsd: "list_all is_digit ds" by (simp add: ds)
  have fs: "fs \<noteq> []" "list_all is_digit fs"
    using i dig by (auto simp: fs_def list_all_iff dest: in_set_dropD)
  have "digits_to_string s e = take i s @ ''.'' @ fs"
    using B digits_to_string_B [of e s] by (simp add: i_def fs_def)
  then have str: "digits_to_string s e @ r = c # ds @ (CHR ''.'' # fs @ r)" by (simp add: ds)
  have "lex_int (c # ds @ (CHR ''.'' # fs @ r)) = Some (c # ds, CHR ''.'' # fs @ r)"
    using s dsd by (simp add: lex_int_lead digit_stop_dot)
  moreover have "lex_frac (CHR ''.'' # fs @ r) = Some (fs, r)"
    using fs num_follow_stop [OF r] by (simp add: lex_frac_digits)
  moreover have "nat_of_digits ((c # ds) @ fs) = nat_of_digits s"
    by (simp add: fs_def flip: ds)
  moreover have "- int (length fs) = e" using i B by (simp add: fs_def i_def)
  ultimately show ?thesis using r by (simp add: str lex_mag_def lex_exp_none)
qed

lemma lex_mag_layout_C:
  assumes s: "s = c # cs" "c \<noteq> CHR ''0''" "is_digit c" "list_all is_digit cs" and r: "num_follow r"
    and C: "-6 < int (length s) + e" "int (length s) + e \<le> 0"
  shows "lex_mag (digits_to_string s e @ r) = Some (nat_of_digits s * 10 ^ 0, e - int 0, r)"
proof -
  define zs where "zs = replicate (nat (- (int (length s) + e))) CHR ''0''"
  have "digits_to_string s e = ''0.'' @ zs @ s"
    using C digits_to_string_C [of s e] by (simp add: s zs_def)
  then have str: "digits_to_string s e @ r = CHR ''0'' # CHR ''.'' # (zs @ s) @ r" by simp
  have ds: "zs @ s \<noteq> []" "list_all is_digit (zs @ s)"
    using s by (simp_all add: zs_def)
  have "lex_frac (CHR ''.'' # (zs @ s) @ r) = Some (zs @ s, r)"
    using ds num_follow_stop [OF r] by (rule lex_frac_digits)
  moreover have "nat_of_digits (''0'' @ zs @ s) = nat_of_digits s"
    by (simp add: zs_def nat_of_digits_Cons)
  moreover have "- int (length (zs @ s)) = e" using C by (simp add: zs_def)
  ultimately show ?thesis using r by (simp add: str lex_mag_def lex_int_def lex_exp_none)
qed

lemma lex_mag_layout_D:
  assumes s: "s = [c]" "c \<noteq> CHR ''0''" "is_digit c" and r: "num_follow r"
    and D: "int (length s) + e \<le> -6 \<or> 21 < int (length s) + e"
  shows "lex_mag (digits_to_string s e @ r) = Some (nat_of_digits s * 10 ^ 0, e - int 0, r)"
proof -
  have "digits_to_string s e = s @ ''e'' @ exp_suffix e"
    using D s digits_to_string_D [of s e] by simp
  then have str: "digits_to_string s e @ r = c # [] @ (CHR ''e'' # exp_suffix e @ r)"
    by (simp add: s)
  have "lex_int (c # [] @ (CHR ''e'' # exp_suffix e @ r)) = Some ([c], CHR ''e'' # exp_suffix e @ r)"
    using s lex_int_lead [of c "[]"] by (simp add: digit_stop_e)
  moreover have "nat_of_digits [c] = nat_of_digits s" by (simp add: s)
  ultimately show ?thesis
    using num_follow_stop [OF r] by (simp add: str lex_mag_def lex_frac_e lex_exp_suffix)
qed

lemma lex_mag_layout_E:
  assumes s: "s = c # cs" "c \<noteq> CHR ''0''" "is_digit c" "list_all is_digit cs" and r: "num_follow r"
    and E: "int (length s) + e \<le> -6 \<or> 21 < int (length s) + e" "1 < length s"
  shows "lex_mag (digits_to_string s e @ r) = Some (nat_of_digits s * 10 ^ 0, e - int 0, r)"
proof -
  let ?n = "int (length s) + e"
  have "digits_to_string s e = [c] @ ''.'' @ cs @ ''e'' @ exp_suffix (?n - 1)"
    using E digits_to_string_E [of s e] by (simp add: s)
  then have str: "digits_to_string s e @ r = c # [] @ (CHR ''.'' # cs @ (CHR ''e'' # exp_suffix (?n - 1) @ r))"
    by simp
  have "lex_int (c # [] @ (CHR ''.'' # cs @ (CHR ''e'' # exp_suffix (?n - 1) @ r))) =
    Some ([c], CHR ''.'' # cs @ (CHR ''e'' # exp_suffix (?n - 1) @ r))"
    using s lex_int_lead [of c "[]"] by (simp add: digit_stop_dot)
  moreover have "lex_frac (CHR ''.'' # cs @ (CHR ''e'' # exp_suffix (?n - 1) @ r)) =
    Some (cs, CHR ''e'' # exp_suffix (?n - 1) @ r)"
    using E s lex_frac_digits [of cs] by (simp add: digit_stop_e)
  moreover have "nat_of_digits ([c] @ cs) = nat_of_digits s" by (simp add: s)
  moreover have "?n - 1 - int (length cs) = e" using s by simp
  ultimately show ?thesis
    using num_follow_stop [OF r] by (simp add: str lex_mag_def lex_exp_suffix)
qed

lemma lex_mag_digits_to_string:
  assumes a: "0 < a" and r: "num_follow r"
  shows "\<exists>j. lex_mag (digits_to_string (show_nat a) e @ r) = Some (a * 10 ^ j, e - int j, r)"
proof -
  define s where "s = show_nat a"
  obtain c cs where s: "s = c # cs" using show_nat_ne s_def by (metis list.exhaust)
  have c: "s = c # cs" "c \<noteq> CHR ''0''" "is_digit c" "list_all is_digit cs"
    using s show_nat_hd [OF a] show_nat_digits [of a] by (simp_all add: s_def [symmetric] s)
  have val: "nat_of_digits s = a" by (simp add: s_def)
  let ?n = "int (length s) + e"
  consider (A) "0 \<le> e" "?n \<le> 21" | (B) "e < 0" "0 < ?n" "?n \<le> 21" | (C) "-6 < ?n" "?n \<le> 0"
    | (D) "?n \<le> -6 \<or> 21 < ?n" "length s = 1" | (E) "?n \<le> -6 \<or> 21 < ?n" "1 < length s"
    using s by (cases "length s = 1") (auto, linarith+)
  then have "\<exists>j. lex_mag (digits_to_string s e @ r) = Some (nat_of_digits s * 10 ^ j, e - int j, r)"
  proof cases
    case A
    then show ?thesis using lex_mag_layout_A [OF c r] by blast
  next
    case B
    then show ?thesis using lex_mag_layout_B [OF c r] by blast
  next
    case C
    then show ?thesis using lex_mag_layout_C [OF c r] by blast
  next
    case D
    then have "s = [c]" using s by simp
    then show ?thesis using lex_mag_layout_D [of s c r e] c r D by blast
  next
    case E
    then show ?thesis using lex_mag_layout_E [OF c r] by blast
  qed
  then show ?thesis by (simp add: val s_def)
qed


lemma lex_number_num_to_string:
  assumes ok: "num_ok (Num m e)" and r: "num_follow r"
  shows "lex_number (num_to_string (Num m e) @ r) = Some (Num m e, r)"
proof (cases "m = 0")
  case True
  with ok have "e = 0" by (simp add: num_ok_def num_canon_def)
  with True r show ?thesis
    by (simp add: num_to_string_def lex_number_def lex_mag_def lex_int_def lex_frac_none
        lex_exp_none num_of_decimal_def norm_num.simps [of 0])
next
  case False
  define a where "a = nat \<bar>m\<bar>"
  have a: "0 < a" using False by (simp add: a_def)
  obtain j where j: "lex_mag (digits_to_string (show_nat a) e @ r) = Some (a * 10 ^ j, e - int j, r)"
    using lex_mag_digits_to_string [OF a r] by blast
  have nfix: "num_of_decimal m e = Num m e" using ok by (rule num_of_decimal_id)
  show ?thesis
  proof (cases "m < 0")
    case True
    then have eq: "- int (a * 10 ^ j) = m * 10 ^ j" by (simp add: a_def)
    have "num_to_string (Num m e) @ r = CHR ''-'' # (digits_to_string (show_nat a) e @ r)"
      using True by (simp add: num_to_string_def a_def)
    with lex_number_neg [OF j] show ?thesis by (simp only: eq num_of_decimal_scale nfix)
  next
    case neg: False
    then have eq: "int (a * 10 ^ j) = m * 10 ^ j" by (simp add: a_def)
    have "num_to_string (Num m e) @ r = digits_to_string (show_nat a) e @ r"
      using neg False by (simp add: num_to_string_def a_def)
    with lex_number_unsigned [OF j] show ?thesis by (simp only: eq num_of_decimal_scale nfix)
  qed
qed

lemma lex_number_ok: "lex_number s = Some (n, r) \<Longrightarrow> num_ok n"
  by (auto simp: lex_number_def num_of_decimal_ok split: option.splits prod.splits)

end
