(* ===== verification/JsonText.thy ===== *)
theory JsonText
  imports JsonNumber
begin

text \<open>
  The text form of JSON values: \<open>JSON.stringify(v, null, 2)\<close> as \<open>json_stringify\<close>
  (two-space indentation, as \<open>writeStudentData\<close> calls it) and \<open>JSON.parse\<close> as
  \<open>json_parse\<close> (as \<open>readStudentData\<close> and \<open>bodyParser.json()\<close> call it). Strings are
  byte strings (the file is read and written as UTF-8); a \<open>\uXXXX\<close> escape is decoded to
  the UTF-8 bytes of its code unit. The parser carries fuel; the fuel
  \<open>length s + 1\<close> that \<open>json_parse\<close> gives it is always enough (\<open>parse_fuel_enough_all\<close>).
  The round trip is proved for any layout of white space between the tokens
  (\<open>reads_back\<close>, \<open>parse_elems_text\<close>, \<open>parse_members_text\<close>), so that it serves the
  indented text here and the compact text of \<open>JsonCompact\<close>.
\<close>

subsection \<open>Characters\<close>

text \<open>Line feed, double quote and backslash, written by code.\<close>

definition nl :: char where
  "nl = CHR 0x0A"

definition dq :: char where
  "dq = CHR 0x22"

definition bsl :: char where
  "bsl = CHR 0x5C"

definition is_ws :: "char \<Rightarrow> bool" where
  "is_ws c \<longleftrightarrow> c = CHR '' '' \<or> c = CHR 0x09 \<or> c = CHR 0x0A \<or> c = CHR 0x0D"

definition skip_ws :: "string \<Rightarrow> string" where
  "skip_ws s = dropWhile is_ws s"

definition hex_char :: "nat \<Rightarrow> char" where
  "hex_char n = (if n < 10 then digit_char n else char_of (87 + n))"

definition hex_val :: "char \<Rightarrow> nat option" where
  "hex_val c =
     (let n = (of_char c :: nat) in
      if 48 \<le> n \<and> n \<le> 57 then Some (n - 48)
      else if 97 \<le> n \<and> n \<le> 102 then Some (n - 87)
      else if 65 \<le> n \<and> n \<le> 70 then Some (n - 55)
      else None)"

subsection \<open>Strings: \<open>QuoteJSONString\<close> and the string rule of \<open>JSON.parse\<close>\<close>

text \<open>
  \<open>QuoteJSONString\<close>: the six short escapes, \<open>\u00XX\<close> with lower-case hex digits for the
  other control characters, every other byte unchanged.
\<close>

definition quote_char :: "char \<Rightarrow> string" where
  "quote_char c =
     (let n = (of_char c :: nat) in
      if n = 8 then [bsl, CHR ''b'']
      else if n = 9 then [bsl, CHR ''t'']
      else if n = 10 then [bsl, CHR ''n'']
      else if n = 12 then [bsl, CHR ''f'']
      else if n = 13 then [bsl, CHR ''r'']
      else if c = dq then [bsl, dq]
      else if c = bsl then [bsl, bsl]
      else if n < 32 then [bsl, CHR ''u'', CHR ''0'', CHR ''0'', hex_char (n div 16), hex_char (n mod 16)]
      else [c])"

definition quote :: "string \<Rightarrow> string" where
  "quote s = dq # concat (map quote_char s) @ [dq]"

text \<open>UTF-8 bytes of a UTF-16 code unit (each surrogate is encoded on its own).\<close>

definition utf8_unit :: "nat \<Rightarrow> string" where
  "utf8_unit u =
     (if u < 128 then [char_of u]
      else if u < 2048 then [char_of (192 + u div 64), char_of (128 + u mod 64)]
      else [char_of (224 + u div 4096), char_of (128 + (u div 64) mod 64), char_of (128 + u mod 64)])"

definition hex4 :: "string \<Rightarrow> nat option" where
  "hex4 hs =
     (if length hs = 4 \<and> (\<forall>h \<in> set hs. hex_val h \<noteq> None)
      then Some (foldl (\<lambda>acc h. 16 * acc + the (hex_val h)) 0 hs) else None)"

text \<open>After a backslash: the decoded bytes and how many characters the escape used.\<close>

definition decode_escape :: "string \<Rightarrow> (string \<times> nat) option" where
  "decode_escape r =
     (case r of
        [] \<Rightarrow> None
      | e # r' \<Rightarrow>
          if e = dq then Some ([dq], 1)
          else if e = bsl then Some ([bsl], 1)
          else if e = CHR ''/'' then Some (''/'', 1)
          else if e = CHR ''b'' then Some ([CHR 0x08], 1)
          else if e = CHR ''f'' then Some ([CHR 0x0C], 1)
          else if e = CHR ''n'' then Some ([CHR 0x0A], 1)
          else if e = CHR ''r'' then Some ([CHR 0x0D], 1)
          else if e = CHR ''t'' then Some ([CHR 0x09], 1)
          else if e = CHR ''u'' then
            (case hex4 (take 4 r') of None \<Rightarrow> None | Some u \<Rightarrow> Some (utf8_unit u, 5))
          else None)"

text \<open>The characters of a string literal after its opening quote, up to the closing one.\<close>

function lex_string :: "string \<Rightarrow> (string \<times> string) option" where
  "lex_string [] = None"
| "lex_string (c # r) =
     (if c = dq then Some ([], r)
      else if c = bsl then
        (case decode_escape r of
           None \<Rightarrow> None
         | Some (bs, k) \<Rightarrow>
             (case lex_string (drop k r) of None \<Rightarrow> None | Some (s, r') \<Rightarrow> Some (bs @ s, r')))
      else if (of_char c :: nat) < 32 then None
      else (case lex_string r of None \<Rightarrow> None | Some (s, r') \<Rightarrow> Some (c # s, r')))"
  by pat_completeness auto
termination
  by (relation "measure length") auto

subsection \<open>\<open>JSON.stringify(value, null, 2)\<close>\<close>

text \<open>
  \<open>SerializeJSONProperty\<close> with the gap of two spaces: an empty array or object is
  \<open>[]\<close> or \<open>{}\<close>; otherwise each element goes on its own line, indented one gap deeper
  than the bracket, and an object member is the quoted key, \<open>": "\<close> and the value.
  A finite number is written by \<open>Number::toString\<close>, an infinite one as \<open>null\<close>.
\<close>

definition gap :: string where
  "gap = ''  ''"

fun ser :: "string \<Rightarrow> json \<Rightarrow> string" where
  "ser ind JNull = ''null''"
| "ser ind (JBool b) = (if b then ''true'' else ''false'')"
| "ser ind (JNumber n) = (if num_finite n then num_to_string n else ''null'')"
| "ser ind (JString s) = quote s"
| "ser ind (JArray xs) =
     (if xs = [] then ''[]''
      else CHR ''['' # nl # ind @ gap @
           join_with ([CHR '','', nl] @ ind @ gap) (map (ser (ind @ gap)) xs) @
           nl # ind @ '']'')"
| "ser ind (JObject ps) =
     (if ps = [] then ''{}''
      else CHR ''{'' # nl # ind @ gap @
           join_with ([CHR '','', nl] @ ind @ gap)
             (map (\<lambda>p. quote (fst p) @ '': '' @ ser (ind @ gap) (snd p)) ps) @
           nl # ind @ ''}'')"

definition json_stringify :: "json \<Rightarrow> string" where
  "json_stringify v = ser [] v"

text \<open>The value a serialisation stands for: every infinite number replaced by \<open>null\<close>.\<close>

fun jsonify :: "json \<Rightarrow> json" where
  "jsonify (JNumber n) = (if num_finite n then JNumber n else JNull)"
| "jsonify (JArray xs) = JArray (map jsonify xs)"
| "jsonify (JObject ps) = JObject (map (\<lambda>(k, v). (k, jsonify v)) ps)"
| "jsonify v = v"

subsection \<open>\<open>JSON.parse\<close>\<close>

datatype parse_error = SyntaxError | OutOfFuel

text \<open>
  A recursive-descent parser with fuel: \<open>parse_value\<close> reads one value after optional
  white space, \<open>parse_elems\<close> the rest of an array after an element, \<open>parse_members\<close>
  a member of an object and the rest of the object. Object members are inserted with
  \<open>obj_set\<close> (\<open>CreateDataProperty\<close>), so a repeated key keeps its first position and
  its last value.
\<close>

fun parse_value :: "nat \<Rightarrow> string \<Rightarrow> parse_error + (json \<times> string)"
and parse_elems :: "nat \<Rightarrow> json list \<Rightarrow> string \<Rightarrow> parse_error + (json \<times> string)"
and parse_members :: "nat \<Rightarrow> (string \<times> json) list \<Rightarrow> string \<Rightarrow> parse_error + (json \<times> string)"
where
  "parse_value 0 s = Inl OutOfFuel"
| "parse_value (Suc f) s =
     (case skip_ws s of
        [] \<Rightarrow> Inl SyntaxError
      | c # r \<Rightarrow>
          if c = CHR ''{'' then
            (case skip_ws r of
               [] \<Rightarrow> Inl SyntaxError
             | d # r' \<Rightarrow> if d = CHR ''}'' then Inr (JObject [], r') else parse_members f [] (d # r'))
          else if c = CHR ''['' then
            (case skip_ws r of
               [] \<Rightarrow> Inl SyntaxError
             | d # r' \<Rightarrow>
                 if d = CHR '']'' then Inr (JArray [], r')
                 else (case parse_value f (d # r') of
                         Inl err \<Rightarrow> Inl err
                       | Inr (v, r'') \<Rightarrow> parse_elems f [v] r''))
          else if c = dq then
            (case lex_string r of None \<Rightarrow> Inl SyntaxError | Some (str, r') \<Rightarrow> Inr (JString str, r'))
          else if c = CHR ''t'' then
            (if take 3 r = ''rue'' then Inr (JBool True, drop 3 r) else Inl SyntaxError)
          else if c = CHR ''f'' then
            (if take 4 r = ''alse'' then Inr (JBool False, drop 4 r) else Inl SyntaxError)
          else if c = CHR ''n'' then
            (if take 3 r = ''ull'' then Inr (JNull, drop 3 r) else Inl SyntaxError)
          else
            (case lex_number (c # r) of None \<Rightarrow> Inl SyntaxError | Some (n, r') \<Rightarrow> Inr (JNumber n, r')))"
| "parse_elems 0 acc s = Inl OutOfFuel"
| "parse_elems (Suc f) acc s =
     (case skip_ws s of
        [] \<Rightarrow> Inl SyntaxError
      | c # r \<Rightarrow>
          if c = CHR '','' then
            (case parse_value f r of
               Inl err \<Rightarrow> Inl err
             | Inr (v, r') \<Rightarrow> parse_elems f (acc @ [v]) r')
          else if c = CHR '']'' then Inr (JArray acc, r)
          else Inl SyntaxError)"
| "parse_members 0 acc s = Inl OutOfFuel"
| "parse_members (Suc f) acc s =
     (case s of
        [] \<Rightarrow> Inl SyntaxError
      | c # r \<Rightarrow>
          if c \<noteq> dq then Inl SyntaxError
          else
            (case lex_string r of
               None \<Rightarrow> Inl SyntaxError
             | Some (k, r1) \<Rightarrow>
                 (case skip_ws r1 of
                    [] \<Rightarrow> Inl SyntaxError
                  | d # r2 \<Rightarrow>
                      if d \<noteq> CHR '':'' then Inl SyntaxError
                      else
                        (case parse_value f r2 of
                           Inl err \<Rightarrow> Inl err
                         | Inr (v, r3) \<Rightarrow>
                             (case skip_ws r3 of
                                [] \<Rightarrow> Inl SyntaxError
                              | e # r4 \<Rightarrow>
                                  if e = CHR '','' then parse_members f (obj_set k v acc) (skip_ws r4)
                                  else if e = CHR ''}'' then Inr (JObject (obj_set k v acc), r4)
                                  else Inl SyntaxError)))))"

text \<open>\<open>JSON.parse(text)\<close>: one value, then only white space; \<open>None\<close> is a \<open>SyntaxError\<close>.\<close>

definition json_parse :: "string \<Rightarrow> json option" where
  "json_parse s =
     (case parse_value (Suc (length s)) s of
        Inr (v, r) \<Rightarrow> if skip_ws r = [] then Some v else None
      | Inl _ \<Rightarrow> None)"

subsection \<open>Auxiliary notions for the round trip\<close>

text \<open>What may follow a serialised value inside a larger text: white space, a separator
  or a closing bracket.\<close>

definition ser_follow :: "string \<Rightarrow> bool" where
  "ser_follow r \<longleftrightarrow>
     r = [] \<or> is_ws (hd r) \<or> hd r = CHR '','' \<or> hd r = CHR '']'' \<or> hd r = CHR ''}''"

text \<open>One object member as \<open>SerializeJSONObject\<close> writes it.\<close>

definition ser_member :: "string \<Rightarrow> string \<times> json \<Rightarrow> string" where
  "ser_member ind' p = quote (fst p) @ '': '' @ ser ind' (snd p)"

text \<open>An object member as \<open>SerializeJSONObject\<close> writes it for any gap: the quoted key,
  the colon, the white space \<open>col\<close> (a space when the gap is not empty) and the value.\<close>

definition member_text :: "string \<Rightarrow> string \<Rightarrow> string \<Rightarrow> string" where
  "member_text col k t = quote k @ CHR '':'' # col @ t"

text \<open>The parser reads the text \<open>t\<close> back as \<open>v\<close>, after any white space, before anything
  that may follow a value, given enough fuel.\<close>

definition reads_back :: "string \<Rightarrow> json \<Rightarrow> bool" where
  "reads_back t v \<longleftrightarrow>
     (\<forall>w rest f. list_all is_ws w \<longrightarrow> ser_follow rest \<longrightarrow> length (w @ t @ rest) < f \<longrightarrow>
        parse_value f (w @ t @ rest) = Inr (v, rest))"

text \<open>The serialisation of \<open>v\<close> at indentation \<open>ind\<close> reads back as \<open>jsonify v\<close>.\<close>

definition parses_back :: "string \<Rightarrow> json \<Rightarrow> bool" where
  "parses_back ind v \<longleftrightarrow> reads_back (ser ind v) (jsonify v)"

subsection \<open>The parser consumes input, and its fuel is enough\<close>

lemma length_skip_ws: "length (skip_ws s) \<le> length s"
  by (simp add: skip_ws_def length_dropWhile_le)

lemma lex_string_shorter: "lex_string s = Some (x, r) \<Longrightarrow> length r < length s"
proof (induction s arbitrary: x r rule: lex_string.induct)
  case 1
  then show ?case by simp
next
  case (2 c r0)
  show ?case
  proof (cases "c = dq")
    case True
    with "2.prems" show ?thesis by simp
  next
    case nd: False
    show ?thesis
    proof (cases "c = bsl")
      case True
      with nd "2.prems" obtain bs k s' where "decode_escape r0 = Some (bs, k)"
        and "lex_string (drop k r0) = Some (s', r)"
        by (auto split: option.splits)
      with True nd "2.IH"(1) [of "(bs, k)" bs k s' r] show ?thesis by simp
    next
      case False
      with nd "2.prems" obtain s' where "\<not> (of_char c :: nat) < 32" and "lex_string r0 = Some (s', r)"
        by (auto split: option.splits if_splits)
      with False nd "2.IH"(2) [of s' r] show ?thesis by simp
    qed
  qed
qed


lemma lex_int_shorter: "lex_int s = Some (ip, r) \<Longrightarrow> length r < length s"
  by (cases s) (auto simp: lex_int_def length_dropWhile_le le_imp_less_Suc split: if_splits)

lemma lex_frac_shorter: "lex_frac s = Some (fp, r) \<Longrightarrow> length r \<le> length s"
  by (cases s) (auto simp: lex_frac_def length_dropWhile_le le_SucI split: if_splits)

lemma exp_sign_shorter: "exp_sign s = (neg, r) \<Longrightarrow> length r \<le> length s"
  by (cases s) (auto simp: exp_sign_def split: if_splits)

lemma lex_exp_shorter: "lex_exp s = Some (x, r) \<Longrightarrow> length r \<le> length s"
proof (cases s)
  case Nil
  then show "lex_exp s = Some (x, r) \<Longrightarrow> length r \<le> length s" by (simp add: lex_exp_def)
next
  case (Cons c t)
  show "lex_exp s = Some (x, r) \<Longrightarrow> length r \<le> length s"
  proof -
    assume ok: "lex_exp s = Some (x, r)"
    obtain neg t' where sg: "exp_sign t = (neg, t')" by fastforce
    have "length t' \<le> length t" using sg by (rule exp_sign_shorter)
    moreover have "length (dropWhile is_digit t') \<le> length t'" by (rule length_dropWhile_le)
    ultimately show ?thesis using ok Cons sg by (auto simp: lex_exp_def Let_def split: if_splits)
  qed
qed

lemma lex_mag_shorter: "lex_mag s = Some (m, x, r) \<Longrightarrow> length r < length s"
  by (auto simp: lex_mag_def split: option.splits
      dest!: lex_int_shorter lex_frac_shorter lex_exp_shorter)

lemma lex_number_shorter: "lex_number s = Some (n, r) \<Longrightarrow> length r < length s"
  by (cases s) (auto simp: lex_number_def split: option.splits if_splits dest!: lex_mag_shorter)


lemma skip_ws_Cons_shorter: "skip_ws s = c # r \<Longrightarrow> length r < length s"
  using length_skip_ws [of s] by simp

lemma parse_value_step_shorter:
  assumes IHv: "\<And>s v r. parse_value f s = Inr (v, r) \<Longrightarrow> length r < length s"
    and IHe: "\<And>acc s v r. parse_elems f acc s = Inr (v, r) \<Longrightarrow> length r < length s"
    and IHm: "\<And>acc s v r. parse_members f acc s = Inr (v, r) \<Longrightarrow> length r < length s"
    and ok: "parse_value (Suc f) s = Inr (v, r)"
  shows "length r < length s"
proof (cases "skip_ws s")
  case Nil
  with ok show ?thesis by simp
next
  case (Cons c t)
  then have lt: "length t < length s" by (rule skip_ws_Cons_shorter)
  show ?thesis
  proof (cases "c = CHR ''{'' \<or> c = CHR ''[''")
    case True
    then show ?thesis
      using ok Cons lt
      by (auto split: if_splits list.splits sum.splits prod.splits
          dest!: IHv IHe IHm skip_ws_Cons_shorter)
  next
    case False
    then show ?thesis
      using ok Cons lt
      by (auto split: if_splits option.splits prod.splits
          dest!: lex_string_shorter lex_number_shorter)
  qed
qed


lemma parse_elems_step_shorter:
  assumes IHv: "\<And>s v r. parse_value f s = Inr (v, r) \<Longrightarrow> length r < length s"
    and IHe: "\<And>acc s v r. parse_elems f acc s = Inr (v, r) \<Longrightarrow> length r < length s"
    and ok: "parse_elems (Suc f) acc s = Inr (v, r)"
  shows "length r < length s"
proof (cases "skip_ws s")
  case Nil
  with ok show ?thesis by simp
next
  case (Cons c t)
  then have lt: "length t < length s" by (rule skip_ws_Cons_shorter)
  with ok Cons show ?thesis
    by (auto split: if_splits sum.splits prod.splits dest!: IHv IHe)
qed

lemma parse_members_step_shorter:
  assumes IHv: "\<And>s v r. parse_value f s = Inr (v, r) \<Longrightarrow> length r < length s"
    and IHm: "\<And>acc s v r. parse_members f acc s = Inr (v, r) \<Longrightarrow> length r < length s"
    and ok: "parse_members (Suc f) acc s = Inr (v, r)"
  shows "length r < length s"
proof (cases s)
  case Nil
  with ok show ?thesis by simp
next
  case (Cons c t)
  from ok Cons have c: "c = dq" by (auto split: if_splits)
  with ok Cons obtain k r1 where str: "lex_string t = Some (k, r1)"
    by (auto split: option.splits)
  then have lt1: "length r1 < length s" using Cons by (auto dest: lex_string_shorter)
  from ok Cons c str obtain r2 where r2: "skip_ws r1 = CHR '':'' # r2"
    by (auto split: if_splits list.splits)
  from ok Cons c str r2 obtain v0 r3 where v0: "parse_value f r2 = Inr (v0, r3)"
    by (auto split: sum.splits)
  from ok Cons c str r2 v0 obtain e r4 where r4: "skip_ws r3 = e # r4"
    by (auto split: list.splits)
  have rest: "(if e = CHR '','' then parse_members f (obj_set k v0 acc) (skip_ws r4)
      else if e = CHR ''}'' then Inr (JObject (obj_set k v0 acc), r4) else Inl SyntaxError) = Inr (v, r)"
    using ok Cons c str r2 v0 r4 by simp
  have "length r4 < length s"
    using lt1 skip_ws_Cons_shorter [OF r2] IHv [OF v0] skip_ws_Cons_shorter [OF r4] by simp
  moreover have "e = CHR '','' \<Longrightarrow> length r < length (skip_ws r4)"
    using rest by (auto intro: IHm)
  moreover have "e \<noteq> CHR '','' \<Longrightarrow> r = r4"
    using rest by (auto split: if_splits)
  ultimately show ?thesis using length_skip_ws [of r4] by (cases "e = CHR '',''") auto
qed

lemma parse_shorter:
  "(\<forall>s v r. parse_value f s = Inr (v, r) \<longrightarrow> length r < length s) \<and>
   (\<forall>acc s v r. parse_elems f acc s = Inr (v, r) \<longrightarrow> length r < length s) \<and>
   (\<forall>acc s v r. parse_members f acc s = Inr (v, r) \<longrightarrow> length r < length s)"
proof (induction f)
  case 0
  then show ?case by simp
next
  case (Suc f)
  have IHv: "\<And>s v r. parse_value f s = Inr (v, r) \<Longrightarrow> length r < length s"
    and IHe: "\<And>acc s v r. parse_elems f acc s = Inr (v, r) \<Longrightarrow> length r < length s"
    and IHm: "\<And>acc s v r. parse_members f acc s = Inr (v, r) \<Longrightarrow> length r < length s"
    using Suc.IH by blast+
  show ?case
  proof (intro conjI allI impI)
    fix s v r
    assume "parse_value (Suc f) s = Inr (v, r)"
    with IHv IHe IHm show "length r < length s" by (rule parse_value_step_shorter)
  next
    fix acc s v r
    assume "parse_elems (Suc f) acc s = Inr (v, r)"
    with IHv IHe show "length r < length s" by (rule parse_elems_step_shorter)
  next
    fix acc s v r
    assume "parse_members (Suc f) acc s = Inr (v, r)"
    with IHv IHm show "length r < length s" by (rule parse_members_step_shorter)
  qed
qed


lemmas parse_value_shorter = parse_shorter [THEN conjunct1, rule_format]
lemmas parse_elems_shorter = parse_shorter [THEN conjunct2, THEN conjunct1, rule_format]
lemmas parse_members_shorter = parse_shorter [THEN conjunct2, THEN conjunct2, rule_format]

lemma parse_value_step_fuel:
  assumes IHv: "\<And>s. length s < f \<Longrightarrow> parse_value f s \<noteq> Inl OutOfFuel"
    and IHe: "\<And>acc s. length s < f \<Longrightarrow> parse_elems f acc s \<noteq> Inl OutOfFuel"
    and IHm: "\<And>acc s. length s < f \<Longrightarrow> parse_members f acc s \<noteq> Inl OutOfFuel"
    and len: "length s \<le> f"
  shows "parse_value (Suc f) s \<noteq> Inl OutOfFuel"
proof (cases "skip_ws s")
  case Nil
  then show ?thesis by simp
next
  case (Cons c t)
  then have lt: "length t < f" using len skip_ws_Cons_shorter [OF Cons] by simp
  show ?thesis
  proof (cases "c = CHR ''{'' \<or> c = CHR ''[''")
    case True
    show ?thesis
    proof (cases "skip_ws t")
      case Nil
      with Cons True show ?thesis by auto
    next
      case (Cons d t')
      then have lt': "length (d # t') < f" using lt length_skip_ws [of t] by simp
      show ?thesis
      proof (cases "c = CHR ''{''")
        case True
        with \<open>skip_ws s = c # t\<close> Cons IHm [OF lt'] show ?thesis by simp
      next
        case notobj: False
        with True have c: "c = CHR ''[''" by simp
        show ?thesis
        proof (cases "parse_value f (d # t')")
          case (Inl err)
          with c \<open>skip_ws s = c # t\<close> Cons IHv [OF lt'] show ?thesis by simp
        next
          case (Inr res)
          obtain v r'' where res: "res = (v, r'')" by fastforce
          with Inr have "length r'' < f"
            using parse_value_shorter [of f "d # t'" v r''] lt' by simp
          with Inr res c \<open>skip_ws s = c # t\<close> Cons IHe show ?thesis by simp
        qed
      qed
    qed
  next
    case False
    with Cons show ?thesis by (simp split: option.splits)
  qed
qed


lemma parse_elems_step_fuel:
  assumes IHv: "\<And>s. length s < f \<Longrightarrow> parse_value f s \<noteq> Inl OutOfFuel"
    and IHe: "\<And>acc s. length s < f \<Longrightarrow> parse_elems f acc s \<noteq> Inl OutOfFuel"
    and len: "length s \<le> f"
  shows "parse_elems (Suc f) acc s \<noteq> Inl OutOfFuel"
proof (cases "skip_ws s")
  case Nil
  then show ?thesis by simp
next
  case (Cons c t)
  then have lt: "length t < f" using len skip_ws_Cons_shorter [OF Cons] by simp
  show ?thesis
  proof (cases "parse_value f t")
    case (Inl err)
    with Cons IHv [OF lt] show ?thesis by simp
  next
    case (Inr res)
    obtain v r' where res: "res = (v, r')" by fastforce
    with Inr have "length r' < f" using parse_value_shorter [of f t v r'] lt by simp
    with Inr res Cons IHe show ?thesis by simp
  qed
qed

lemma parse_members_step_fuel:
  assumes IHv: "\<And>s. length s < f \<Longrightarrow> parse_value f s \<noteq> Inl OutOfFuel"
    and IHm: "\<And>acc s. length s < f \<Longrightarrow> parse_members f acc s \<noteq> Inl OutOfFuel"
    and len: "length s \<le> f"
  shows "parse_members (Suc f) acc s \<noteq> Inl OutOfFuel"
proof (cases "\<exists>t k r1 r2. s = dq # t \<and> lex_string t = Some (k, r1) \<and> skip_ws r1 = CHR '':'' # r2")
  case False
  then show ?thesis by (auto split: list.splits option.splits if_splits)
next
  case True
  then obtain t k r1 r2 where s: "s = dq # t" and str: "lex_string t = Some (k, r1)"
    and r2: "skip_ws r1 = CHR '':'' # r2" by blast
  have lt2: "length r2 < f"
    using len s lex_string_shorter [OF str] skip_ws_Cons_shorter [OF r2] by simp
  show ?thesis
  proof (cases "parse_value f r2")
    case (Inl err)
    with s str r2 IHv [OF lt2] show ?thesis by simp
  next
    case (Inr res)
    obtain v r3 where res: "res = (v, r3)" by fastforce
    with Inr have lt3: "length r3 < f" using parse_value_shorter [of f r2 v r3] lt2 by simp
    have "length (skip_ws r4) < f" if "skip_ws r3 = e # r4" for e r4
      using lt3 skip_ws_Cons_shorter [OF that] length_skip_ws [of r4] by simp
    with Inr res s str r2 IHm show ?thesis by (simp split: list.splits)
  qed
qed

lemma parse_fuel_enough_all:
  "(\<forall>s. length s < f \<longrightarrow> parse_value f s \<noteq> Inl OutOfFuel) \<and>
   (\<forall>acc s. length s < f \<longrightarrow> parse_elems f acc s \<noteq> Inl OutOfFuel) \<and>
   (\<forall>acc s. length s < f \<longrightarrow> parse_members f acc s \<noteq> Inl OutOfFuel)"
proof (induction f)
  case 0
  then show ?case by simp
next
  case (Suc f)
  have IHv: "\<And>s. length s < f \<Longrightarrow> parse_value f s \<noteq> Inl OutOfFuel"
    and IHe: "\<And>acc s. length s < f \<Longrightarrow> parse_elems f acc s \<noteq> Inl OutOfFuel"
    and IHm: "\<And>acc s. length s < f \<Longrightarrow> parse_members f acc s \<noteq> Inl OutOfFuel"
    using Suc.IH by blast+
  show ?case
  proof (intro conjI allI impI)
    fix s :: string
    assume "length s < Suc f"
    then have "length s \<le> f" by simp
    with IHv IHe IHm show "parse_value (Suc f) s \<noteq> Inl OutOfFuel" by (rule parse_value_step_fuel)
  next
    fix acc and s :: string
    assume "length s < Suc f"
    then have "length s \<le> f" by simp
    with IHv IHe show "parse_elems (Suc f) acc s \<noteq> Inl OutOfFuel" by (rule parse_elems_step_fuel)
  next
    fix acc and s :: string
    assume "length s < Suc f"
    then have "length s \<le> f" by simp
    with IHv IHm show "parse_members (Suc f) acc s \<noteq> Inl OutOfFuel" by (rule parse_members_step_fuel)
  qed
qed

subsection \<open>Strings read back\<close>

lemma of_char_eq_char_of: "(of_char c :: nat) = n \<Longrightarrow> c = char_of n"
  by (metis char_of_char)

lemma hex_val_hex_char: "n < 16 \<Longrightarrow> hex_val (hex_char n) = Some n"
  by (auto simp: hex_val_def hex_char_def digit_char_def Let_def)

lemma hex_val_0: "hex_val CHR ''0'' = Some 0"
  by (simp add: hex_val_def)

lemma hex_char_ne_0: "n < 16 \<Longrightarrow> hex_val (hex_char n) \<noteq> None"
  by (simp add: hex_val_hex_char)

lemma decode_escape_u00:
  assumes "n < 32"
  shows "decode_escape (CHR ''u'' # CHR ''0'' # CHR ''0'' # hex_char (n div 16) # hex_char (n mod 16) # r) =
    Some ([char_of n], 5)"
proof -
  have "n div 16 < 16" "n mod 16 < 16" using assms by simp_all
  then have "hex4 [CHR ''0'', CHR ''0'', hex_char (n div 16), hex_char (n mod 16)] = Some n"
    by (simp add: hex4_def hex_val_0 hex_val_hex_char)
  with assms show ?thesis by (simp add: decode_escape_def dq_def bsl_def utf8_unit_def)
qed

lemma quote_char_cases:
  "quote_char dq = [bsl, dq]"
  "quote_char bsl = [bsl, bsl]"
  "(of_char c :: nat) = 8 \<Longrightarrow> quote_char c = [bsl, CHR ''b'']"
  "(of_char c :: nat) = 9 \<Longrightarrow> quote_char c = [bsl, CHR ''t'']"
  "(of_char c :: nat) = 10 \<Longrightarrow> quote_char c = [bsl, CHR ''n'']"
  "(of_char c :: nat) = 12 \<Longrightarrow> quote_char c = [bsl, CHR ''f'']"
  "(of_char c :: nat) = 13 \<Longrightarrow> quote_char c = [bsl, CHR ''r'']"
  by (simp_all add: quote_char_def Let_def dq_def bsl_def)

lemma quote_char_ctrl:
  "(of_char c :: nat) < 32 \<Longrightarrow> (of_char c :: nat) \<notin> {8, 9, 10, 12, 13} \<Longrightarrow>
   quote_char c = [bsl, CHR ''u'', CHR ''0'', CHR ''0'', hex_char (of_char c div 16), hex_char (of_char c mod 16)]"
  by (auto simp: quote_char_def Let_def dq_def bsl_def)

lemma quote_char_plain:
  "\<not> (of_char c :: nat) < 32 \<Longrightarrow> c \<noteq> dq \<Longrightarrow> c \<noteq> bsl \<Longrightarrow> quote_char c = [c]"
  by (auto simp: quote_char_def Let_def)

lemma lex_string_quote_char:
  "lex_string (quote_char c @ r) =
   (case lex_string r of None \<Rightarrow> None | Some (s, r') \<Rightarrow> Some (c # s, r'))"
proof -
  define n where "n = (of_char c :: nat)"
  consider "c = dq" | "c = bsl" | "n \<in> {8, 9, 10, 12, 13}"
    | "n \<notin> {8, 9, 10, 12, 13}" "n < 32"
    | "c \<noteq> dq" "c \<noteq> bsl" "\<not> n < 32"
    by blast
  then show ?thesis
  proof cases
    case 1
    then have "quote_char c @ r = bsl # dq # r" by (simp add: quote_char_cases)
    with 1 show ?thesis by (simp add: decode_escape_def dq_def bsl_def split: option.splits)
  next
    case 2
    then have "quote_char c @ r = bsl # bsl # r" by (simp add: quote_char_cases)
    with 2 show ?thesis by (simp add: decode_escape_def dq_def bsl_def split: option.splits)
  next
    case 3
    then have "c \<in> {CHR 0x08, CHR 0x09, CHR 0x0A, CHR 0x0C, CHR 0x0D}"
      by (auto simp: n_def intro: of_char_eqI)
    then show ?thesis
      by (auto simp: quote_char_cases decode_escape_def dq_def bsl_def split: option.splits)
  next
    case 4
    then have "quote_char c @ r =
        bsl # CHR ''u'' # CHR ''0'' # CHR ''0'' # hex_char (n div 16) # hex_char (n mod 16) # r"
      by (simp add: quote_char_ctrl n_def)
    with 4 show ?thesis
      by (simp add: decode_escape_u00 n_def dq_def bsl_def split: option.splits)
  next
    case 5
    then show ?thesis by (simp add: quote_char_plain n_def split: option.splits)
  qed
qed

lemma lex_string_quote:
  "lex_string (concat (map quote_char s) @ dq # r) = Some (s, r)"
  by (induction s) (simp_all add: lex_string_quote_char)

subsection \<open>Values read back\<close>

lemma ser_follow_num: "ser_follow r \<Longrightarrow> num_follow r"
  by (auto simp: ser_follow_def num_follow_def is_ws_def is_digit_def)

lemma is_ws_simps [simp]:
  "is_ws CHR '' ''" "is_ws nl" "\<not> is_ws CHR '',''" "\<not> is_ws CHR ''[''" "\<not> is_ws CHR '']''"
  "\<not> is_ws CHR ''{''" "\<not> is_ws CHR ''}''" "\<not> is_ws dq" "\<not> is_ws CHR '':''"
  "\<not> is_ws CHR ''0''" "\<not> is_ws CHR ''n''" "\<not> is_ws CHR ''t''" "\<not> is_ws CHR ''f''" "\<not> is_ws CHR ''-''"
  by (simp_all add: is_ws_def nl_def dq_def)

lemma dq_neq [simp]:
  "dq \<noteq> CHR '']''" "dq \<noteq> CHR ''}''" "dq \<noteq> CHR ''{''" "dq \<noteq> CHR ''[''" "dq \<noteq> CHR '',''"
  "dq \<noteq> CHR '':''" "dq \<noteq> CHR ''t''" "dq \<noteq> CHR ''f''" "dq \<noteq> CHR ''n''" "dq \<noteq> nl"
  by (simp_all add: dq_def nl_def)

lemma is_ws_digit: "is_digit c \<Longrightarrow> \<not> is_ws c"
  by (auto simp: is_ws_def is_digit_def)

lemma ws_gap [simp]: "list_all is_ws gap"
  by (simp add: gap_def)

lemma skip_ws_append_ws: "list_all is_ws w \<Longrightarrow> skip_ws (w @ s) = skip_ws s"
  by (induction w) (simp_all add: skip_ws_def)

lemma skip_ws_stop: "\<not> is_ws c \<Longrightarrow> skip_ws (c # s) = c # s"
  by (simp add: skip_ws_def)

lemma skip_ws_ws_Cons: "is_ws c \<Longrightarrow> skip_ws (c # s) = skip_ws s"
  by (simp add: skip_ws_def)

lemma digits_to_string_hd:
  assumes "s \<noteq> []" "is_digit (hd s)"
  shows "digits_to_string s e \<noteq> [] \<and> is_digit (hd (digits_to_string s e))"
proof -
  have "0 < length s" using assms by simp
  with assms show ?thesis
    by (auto simp: digits_to_string_def Let_def hd_append is_digit_def)
qed

lemma num_to_string_hd:
  "num_to_string x \<noteq> [] \<and> \<not> is_ws (hd (num_to_string x)) \<and>
   hd (num_to_string x) \<notin> {CHR ''{'', CHR ''['', dq, CHR ''t'', CHR ''f'', CHR ''n'', CHR '']'', CHR ''}''}"
proof (cases x)
  case (Num m e)
  have "show_nat (nat \<bar>m\<bar>) \<noteq> []" "is_digit (hd (show_nat (nat \<bar>m\<bar>)))"
    using show_nat_digits [of "nat \<bar>m\<bar>"] by (auto simp: list_all_iff)
  then have d: "digits_to_string (show_nat (nat \<bar>m\<bar>)) e \<noteq> []"
    "is_digit (hd (digits_to_string (show_nat (nat \<bar>m\<bar>)) e))"
    using digits_to_string_hd by blast+
  then have "\<not> is_ws (hd (digits_to_string (show_nat (nat \<bar>m\<bar>)) e))"
    "hd (digits_to_string (show_nat (nat \<bar>m\<bar>)) e) \<notin> {CHR ''{'', CHR ''['', dq, CHR ''t'', CHR ''f'', CHR ''n'', CHR '']'', CHR ''}''}"
    by (auto simp: is_ws_digit is_digit_def dq_def)
  with d Num show ?thesis by (auto simp: num_to_string_def is_digit_def dq_def)
qed (simp_all add: num_to_string_def dq_def is_ws_def)


lemma ser_hd: "\<exists>c t. ser ind v = c # t \<and> \<not> is_ws c \<and> c \<noteq> CHR '']'' \<and> c \<noteq> CHR ''}''"
proof (cases v)
  case (JNumber x)
  then show ?thesis using num_to_string_hd [of x] by (cases "num_to_string x") auto
qed (auto simp: quote_def)

lemma skip_ws_ser: "list_all is_ws w \<Longrightarrow> skip_ws (w @ ser ind v @ r) = ser ind v @ r"
  using ser_hd [of ind v] by (auto simp: skip_ws_append_ws skip_ws_stop)

lemma join_with_map_Cons:
  "join_with sep (x # map g ys) = x @ concat (map (\<lambda>y. sep @ g y) ys)"
  by (induction ys arbitrary: x) simp_all


lemma reads_backD:
  "reads_back t v \<Longrightarrow> list_all is_ws w \<Longrightarrow> ser_follow rest \<Longrightarrow> length (w @ t @ rest) < f \<Longrightarrow>
   parse_value f (w @ t @ rest) = Inr (v, rest)"
  by (simp add: reads_back_def)

lemma parses_backD:
  "parses_back ind v \<Longrightarrow> list_all is_ws w \<Longrightarrow> ser_follow rest \<Longrightarrow> length (w @ ser ind v @ rest) < f \<Longrightarrow>
   parse_value f (w @ ser ind v @ rest) = Inr (jsonify v, rest)"
  by (simp add: parses_back_def reads_back_def)

lemma ser_follow_elems:
  "ser_follow (concat (map (\<lambda>y. CHR '','' # g y) ys) @ nl # r)"
  by (cases ys) (simp_all add: ser_follow_def)

lemma ser_follow_close:
  "list_all is_ws cl \<Longrightarrow> c = CHR '']'' \<or> c = CHR ''}'' \<Longrightarrow>
   ser_follow (concat (map (\<lambda>y. CHR '','' # g y) ys) @ cl @ c # r)"
  by (cases ys; cases cl) (auto simp: ser_follow_def)

text \<open>The elements after the first of an array, for any layout: each is a comma, the white
  space \<open>sep\<close> and the element's text; the white space \<open>cl\<close> precedes the bracket.\<close>

lemma parse_elems_text:
  assumes IH: "\<forall>y \<in> set ys. reads_back (t y) (h y)" and ws: "list_all is_ws sep" "list_all is_ws cl"
    and len: "length (concat (map (\<lambda>y. (CHR '','' # sep) @ t y) ys) @ cl @ CHR '']'' # rest) < f"
  shows "parse_elems f acc (concat (map (\<lambda>y. (CHR '','' # sep) @ t y) ys) @ cl @ CHR '']'' # rest) =
    Inr (JArray (acc @ map h ys), rest)"
  using IH len
proof (induction ys arbitrary: acc f)
  case Nil
  then obtain g where "f = Suc g" by (cases f) auto
  with ws show ?case by (simp add: skip_ws_append_ws skip_ws_stop)
next
  case (Cons y ys)
  then obtain g where f: "f = Suc g" by (cases f) auto
  define R where "R = concat (map (\<lambda>y. (CHR '','' # sep) @ t y) ys) @ cl @ CHR '']'' # rest"
  have lenR: "length (sep @ t y @ R) < g" using Cons.prems(2) f by (simp add: R_def)
  have fol: "ser_follow R"
    using ser_follow_close [OF ws(2), of "CHR '']''" "\<lambda>y. sep @ t y" ys rest] by (simp add: R_def)
  have "parse_value g (sep @ t y @ R) = Inr (h y, R)"
    using Cons.prems(1) ws(1) fol lenR by (intro reads_backD) simp_all
  moreover have "parse_elems g (acc @ [h y]) R = Inr (JArray ((acc @ [h y]) @ map h ys), rest)"
    using Cons.IH Cons.prems lenR by (simp add: R_def)
  ultimately show ?case by (simp add: f R_def skip_ws_stop)
qed

lemma parse_members_text_step:
  assumes "parse_value g (col @ t @ R) = Inr (v, R)"
  shows "parse_members (Suc g) acc (member_text col k t @ R) =
    (case skip_ws R of
       [] \<Rightarrow> Inl SyntaxError
     | e # r4 \<Rightarrow>
         if e = CHR '','' then parse_members g (obj_set k v acc) (skip_ws r4)
         else if e = CHR ''}'' then Inr (JObject (obj_set k v acc), r4) else Inl SyntaxError)"
  using assms by (simp add: member_text_def quote_def lex_string_quote skip_ws_stop)

text \<open>The members of an object, for any layout: the first member, then for each further
  one a comma, the white space \<open>sep\<close> and the member; the white space \<open>cl\<close> precedes the
  brace.\<close>

lemma parse_members_text:
  assumes IH: "\<forall>q \<in> set (p # ps). reads_back (t q) (h q)"
    and ws: "list_all is_ws sep" "list_all is_ws cl" "list_all is_ws col"
    and len: "length (member_text col (fst p) (t p) @
                concat (map (\<lambda>q. CHR '','' # sep @ member_text col (fst q) (t q)) ps) @ cl @ CHR ''}'' # rest) < f"
  shows "parse_members f acc
      (member_text col (fst p) (t p) @
       concat (map (\<lambda>q. CHR '','' # sep @ member_text col (fst q) (t q)) ps) @ cl @ CHR ''}'' # rest) =
    Inr (JObject (foldl (\<lambda>acc q. obj_set (fst q) (h q) acc) acc (p # ps)), rest)"
  using IH len
proof (induction ps arbitrary: p acc f)
  case Nil
  from Nil obtain g where f: "f = Suc g" by (cases f) auto
  define R where "R = cl @ CHR ''}'' # rest"
  have fol: "ser_follow R" using ser_follow_close [OF ws(2), of "CHR ''}''" "\<lambda>_. []" "[]"] by (simp add: R_def)
  have lenR: "length (col @ t p @ R) < g"
    using Nil.prems(2) f by (simp add: R_def member_text_def quote_def)
  have "parse_value g (col @ t p @ R) = Inr (h p, R)"
    using Nil.prems(1) ws(3) fol lenR by (intro reads_backD) simp_all
  moreover have "skip_ws R = CHR ''}'' # rest"
    using ws by (simp add: R_def skip_ws_append_ws skip_ws_stop)
  ultimately have "parse_members (Suc g) acc (member_text col (fst p) (t p) @ R) =
      Inr (JObject (obj_set (fst p) (h p) acc), rest)"
    by (simp add: parse_members_text_step del: parse_members.simps)
  then show ?case by (simp add: f R_def del: parse_members.simps)
next
  case (Cons q ps)
  from Cons.prems obtain g where f: "f = Suc g" by (cases f) auto
  define R where "R = concat (map (\<lambda>q. CHR '','' # sep @ member_text col (fst q) (t q)) (q # ps)) @
      cl @ CHR ''}'' # rest"
  have fol: "ser_follow R" by (simp add: R_def ser_follow_def)
  have lenR: "length (col @ t p @ R) < g"
    using Cons.prems(2) f by (simp add: R_def member_text_def quote_def)
  have pv: "parse_value g (col @ t p @ R) = Inr (h p, R)"
    using Cons.prems(1) ws(3) fol lenR by (intro reads_backD) simp_all
  have skip: "skip_ws (sep @ member_text col (fst q) (t q) @ X) = member_text col (fst q) (t q) @ X" for X
    using ws by (simp add: skip_ws_append_ws member_text_def quote_def skip_ws_stop)
  have rest: "parse_members g (obj_set (fst p) (h p) acc)
      (member_text col (fst q) (t q) @ concat (map (\<lambda>q. CHR '','' # sep @ member_text col (fst q) (t q)) ps) @
       cl @ CHR ''}'' # rest) =
    Inr (JObject (foldl (\<lambda>acc q. obj_set (fst q) (h q) acc) (obj_set (fst p) (h p) acc) (q # ps)), rest)"
    using Cons.IH [where p = q and acc = "obj_set (fst p) (h p) acc" and f = g] Cons.prems(1) lenR
    by (simp add: R_def)
  have "parse_members (Suc g) acc (member_text col (fst p) (t p) @ R) =
      parse_members g (obj_set (fst p) (h p) acc) (skip_ws (sep @ member_text col (fst q) (t q) @
        concat (map (\<lambda>q. CHR '','' # sep @ member_text col (fst q) (t q)) ps) @ cl @ CHR ''}'' # rest))"
    using parse_members_text_step [OF pv, of acc "fst p"] by (simp add: R_def skip_ws_stop del: parse_members.simps)
  also have "\<dots> = Inr (JObject (foldl (\<lambda>acc q. obj_set (fst q) (h q) acc) (obj_set (fst p) (h p) acc) (q # ps)), rest)"
    by (simp only: skip rest)
  finally show ?case by (simp add: f R_def del: parse_members.simps)
qed

lemma ser_member_text: "ser_member ind' p = member_text '' '' (fst p) (ser ind' (snd p))"
  by (simp add: ser_member_def member_text_def)

lemma parse_elems_ser:
  assumes IH: "\<forall>y \<in> set ys. parses_back ind' y" and ws: "list_all is_ws ind'" "list_all is_ws ind"
    and len: "length (concat (map (\<lambda>y. (CHR '','' # nl # ind') @ ser ind' y) ys) @ nl # ind @ CHR '']'' # rest) < f"
  shows "parse_elems f acc (concat (map (\<lambda>y. (CHR '','' # nl # ind') @ ser ind' y) ys) @ nl # ind @ CHR '']'' # rest) =
    Inr (JArray (acc @ map jsonify ys), rest)"
  using parse_elems_text [of ys "ser ind'" jsonify "nl # ind'" "nl # ind" rest f acc] IH ws len
  by (simp add: parses_back_def)

lemma parse_members_ser:
  assumes IH: "\<forall>q \<in> set (p # ps). parses_back ind' (snd q)" and ws: "list_all is_ws ind'" "list_all is_ws ind"
    and len: "length (ser_member ind' p @ concat (map (\<lambda>q. CHR '','' # nl # ind' @ ser_member ind' q) ps) @
                nl # ind @ CHR ''}'' # rest) < f"
  shows "parse_members f acc
      (ser_member ind' p @ concat (map (\<lambda>q. CHR '','' # nl # ind' @ ser_member ind' q) ps) @
       nl # ind @ CHR ''}'' # rest) =
    Inr (JObject (foldl (\<lambda>acc q. obj_set (fst q) (jsonify (snd q)) acc) acc (p # ps)), rest)"
  using parse_members_text [of p ps "\<lambda>q. ser ind' (snd q)" "\<lambda>q. jsonify (snd q)" "nl # ind'" "nl # ind" "'' ''" rest f acc]
    IH ws len
  by (simp add: parses_back_def ser_member_text)

lemma parse_value_ws:
  "list_all is_ws w \<Longrightarrow> parse_value (Suc g) (w @ s) = parse_value (Suc g) s"
  by (simp add: skip_ws_append_ws)

lemma parses_back_scalar:
  assumes "wf_json v" and "\<forall>xs. v \<noteq> JArray xs" and "\<forall>ps. v \<noteq> JObject ps"
  shows "parses_back ind v"
  unfolding parses_back_def reads_back_def
proof (intro allI impI)
  fix w rest f
  assume ws: "list_all is_ws w" and fol: "ser_follow rest" and len: "length (w @ ser ind v @ rest) < f"
  then obtain g where f: "f = Suc g" by (cases f) auto
  have "parse_value (Suc g) (ser ind v @ rest) = Inr (jsonify v, rest)"
  proof (cases v)
    case (JNumber x)
    show ?thesis
    proof (cases x)
      case (Num m e)
      obtain c t where ct: "num_to_string x = c # t" using num_to_string_hd [of x] by (cases "num_to_string x") auto
      have "lex_number (num_to_string x @ rest) = Some (x, rest)"
        using assms(1) JNumber Num ser_follow_num [OF fol] by (simp add: lex_number_num_to_string)
      with JNumber Num ct num_to_string_hd [of x] show ?thesis by (simp add: skip_ws_stop num_finite_def)
    qed (simp_all add: JNumber skip_ws_stop num_finite_def dq_def)
  next
    case (JString str)
    then show ?thesis by (simp add: quote_def skip_ws_stop lex_string_quote)
  qed (use assms in \<open>simp_all add: skip_ws_stop dq_def\<close>)
  with parse_value_ws [OF ws, of g "ser ind v @ rest"]
  show "parse_value f (w @ ser ind v @ rest) = Inr (jsonify v, rest)"
    by (simp add: f del: parse_value.simps)
qed


lemma ser_array_Cons:
  "ser ind (JArray (x # ys)) @ rest =
   CHR ''['' # (nl # (ind @ gap)) @ ser (ind @ gap) x @
     (concat (map (\<lambda>y. (CHR '','' # nl # (ind @ gap)) @ ser (ind @ gap) y) ys) @ nl # ind @ CHR '']'' # rest)"
  by (simp add: join_with_map_Cons)

lemma parses_back_array:
  assumes IH: "\<forall>x \<in> set xs. parses_back (ind @ gap) x" and ws: "list_all is_ws ind"
  shows "parses_back ind (JArray xs)"
  unfolding parses_back_def reads_back_def
proof (intro allI impI)
  fix w rest f
  assume w: "list_all is_ws w" and fol: "ser_follow rest" and len: "length (w @ ser ind (JArray xs) @ rest) < f"
  then obtain g where f: "f = Suc g" by (cases f) auto
  have ws': "list_all is_ws (ind @ gap)" using ws by simp
  have "parse_value (Suc g) (ser ind (JArray xs) @ rest) = Inr (jsonify (JArray xs), rest)"
  proof (cases xs)
    case Nil
    then show ?thesis by (simp add: skip_ws_stop)
  next
    case (Cons x ys)
    define R where "R = concat (map (\<lambda>y. (CHR '','' # nl # (ind @ gap)) @ ser (ind @ gap) y) ys) @
      nl # ind @ CHR '']'' # rest"
    have lenR: "length ([] @ ser (ind @ gap) x @ R) < g"
      using len f Cons ser_array_Cons [of ind x ys rest] by (simp add: R_def)
    have px: "parse_value g ([] @ ser (ind @ gap) x @ R) = Inr (jsonify x, R)"
      using IH Cons ser_follow_elems [of "\<lambda>y. nl # (ind @ gap) @ ser (ind @ gap) y"] lenR
      by (intro parses_backD) (simp_all add: R_def)
    have "parse_elems g [jsonify x] R = Inr (JArray ([jsonify x] @ map jsonify ys), rest)"
      unfolding R_def using IH Cons ws' ws lenR by (intro parse_elems_ser) (simp_all add: R_def)
    then have pe: "parse_elems g [jsonify x] R = Inr (jsonify (JArray xs), rest)" by (simp add: Cons)
    obtain d t where dt: "ser (ind @ gap) x = d # t" "\<not> is_ws d" "d \<noteq> CHR '']''"
      using ser_hd [of "ind @ gap" x] by blast
    have sk: "skip_ws ((nl # (ind @ gap)) @ ser (ind @ gap) x @ R) = ser (ind @ gap) x @ R"
      using ws' by (intro skip_ws_ser) simp
    have eq: "ser ind (JArray xs) @ rest = CHR ''['' # ((nl # (ind @ gap)) @ ser (ind @ gap) x @ R)"
      using ser_array_Cons [of ind x ys rest] by (simp only: Cons R_def)
    show ?thesis
      using dt px pe sk by (simp only: eq) (simp add: skip_ws_stop del: ser.simps parse_elems.simps)
  qed
  with parse_value_ws [OF w, of g "ser ind (JArray xs) @ rest"]
  show "parse_value f (w @ ser ind (JArray xs) @ rest) = Inr (jsonify (JArray xs), rest)"
    by (simp add: f del: parse_value.simps ser.simps)
qed


lemma ser_object_Cons:
  "ser ind (JObject (p # qs)) @ rest =
   CHR ''{'' # ((nl # (ind @ gap)) @ ser_member (ind @ gap) p @
     (concat (map (\<lambda>q. CHR '','' # nl # (ind @ gap) @ ser_member (ind @ gap) q) qs) @ nl # ind @ CHR ''}'' # rest))"
proof -
  have "map (\<lambda>p. quote (fst p) @ '': '' @ ser (ind @ gap) (snd p)) (p # qs) =
      ser_member (ind @ gap) p # map (ser_member (ind @ gap)) qs"
    by (simp add: ser_member_def)
  then show ?thesis by (simp only: ser.simps if_False list.simps) (simp add: join_with_map_Cons)
qed

lemma parses_back_object:
  assumes IH: "\<forall>p \<in> set ps. parses_back (ind @ gap) (snd p)" and ord: "keys_ordered (map fst ps)"
    and ws: "list_all is_ws ind"
  shows "parses_back ind (JObject ps)"
  unfolding parses_back_def reads_back_def
proof (intro allI impI)
  fix w rest f
  assume w: "list_all is_ws w" and fol: "ser_follow rest" and len: "length (w @ ser ind (JObject ps) @ rest) < f"
  then obtain g where f: "f = Suc g" by (cases f) auto
  have ws': "list_all is_ws (ind @ gap)" using ws by simp
  have "parse_value (Suc g) (ser ind (JObject ps) @ rest) = Inr (jsonify (JObject ps), rest)"
  proof (cases ps)
    case Nil
    then show ?thesis by (simp add: skip_ws_stop)
  next
    case (Cons p qs)
    define M where "M = concat (map (\<lambda>q. CHR '','' # nl # (ind @ gap) @ ser_member (ind @ gap) q) qs) @
      nl # ind @ CHR ''}'' # rest"
    have eq: "ser ind (JObject ps) @ rest = CHR ''{'' # ((nl # (ind @ gap)) @ ser_member (ind @ gap) p @ M)"
      using ser_object_Cons [of ind p qs rest] by (simp only: Cons M_def)
    have lenM: "length (ser_member (ind @ gap) p @ M) < g"
      using len f by (simp only: eq) simp
    have "parse_members g [] (ser_member (ind @ gap) p @ M) =
        Inr (JObject (foldl (\<lambda>acc q. obj_set (fst q) (jsonify (snd q)) acc) [] (p # qs)), rest)"
      unfolding M_def using IH Cons ws' ws lenM by (intro parse_members_ser) (simp_all add: M_def)
    also have "foldl (\<lambda>acc q. obj_set (fst q) (jsonify (snd q)) acc) [] (p # qs) =
        build_obj (map (\<lambda>(k, v). (k, jsonify v)) ps)"
      by (simp add: build_obj_def Cons foldl_map case_prod_beta')
    also have "\<dots> = map (\<lambda>(k, v). (k, jsonify v)) ps"
      using ord by (intro build_obj_ordered) (simp add: case_prod_beta' comp_def)
    finally have pm: "parse_members g [] (ser_member (ind @ gap) p @ M) = Inr (jsonify (JObject ps), rest)"
      by simp
    have sk: "skip_ws ((nl # (ind @ gap)) @ ser_member (ind @ gap) p @ M) = ser_member (ind @ gap) p @ M"
      using ws by (simp add: skip_ws_ws_Cons skip_ws_append_ws ser_member_def quote_def skip_ws_stop)
    obtain tt where hd: "ser_member (ind @ gap) p @ M = dq # tt"
      by (simp add: ser_member_def quote_def)
    show ?thesis
      using pm sk hd by (simp only: eq) (simp add: skip_ws_stop del: ser.simps parse_members.simps)
  qed
  with parse_value_ws [OF w, of g "ser ind (JObject ps) @ rest"]
  show "parse_value f (w @ ser ind (JObject ps) @ rest) = Inr (jsonify (JObject ps), rest)"
    by (simp add: f del: parse_value.simps ser.simps)
qed


lemma parses_back_wf: "wf_json v \<Longrightarrow> list_all is_ws ind \<Longrightarrow> parses_back ind v"
proof (induction v arbitrary: ind)
  case (JArray xs)
  have ws': "list_all is_ws (ind @ gap)" using JArray.prems by simp
  have "\<forall>x \<in> set xs. parses_back (ind @ gap) x"
    using JArray.IH JArray.prems ws' by (simp add: list_all_iff)
  with JArray.prems show ?case by (intro parses_back_array) simp_all
next
  case (JObject ps)
  have "parses_back (ind @ gap) (snd p)" if p: "p \<in> set ps" for p
  proof -
    have "snd p \<in> Basic_BNFs.snds p" by (simp add: prod_set_defs)
    moreover have "wf_json (snd p)" using JObject.prems p by (simp add: list_all_iff)
    ultimately show ?thesis using JObject.IH p JObject.prems(2) by simp
  qed
  with JObject.prems show ?case by (intro parses_back_object) simp_all
qed (simp_all add: parses_back_scalar)

lemma parse_stringify_wf: "wf_json v \<Longrightarrow> json_parse (json_stringify v) = Some (jsonify v)"
proof -
  assume wf: "wf_json v"
  have "parse_value (Suc (length (ser [] v))) ([] @ ser [] v @ []) = Inr (jsonify v, [])"
    by (rule parses_backD [OF parses_back_wf [OF wf]]) (simp_all add: ser_follow_def)
  then show ?thesis by (simp add: json_parse_def json_stringify_def skip_ws_def)
qed

subsection \<open>The value a serialisation stands for\<close>

lemma jsonify_idem [simp]: "jsonify (jsonify v) = jsonify v"
proof (induction v)
  case (JObject ps)
  then show ?case by (auto simp: case_prod_beta' intro!: map_idI)
qed (simp_all add: num_finite_def)

lemma ser_jsonify [simp]: "ser ind (jsonify v) = ser ind v"
proof (induction v arbitrary: ind)
  case (JArray xs)
  then show ?case by (simp cong: map_cong)
next
  case (JObject ps)
  have "ser ind' (jsonify (snd p)) = ser ind' (snd p)" if "p \<in> set ps" for p ind'
    using JObject.IH [of p "snd p"] that by (simp add: prod_set_defs)
  then show ?case by (simp add: comp_def case_prod_beta' cong: map_cong)
qed (simp_all add: num_finite_def)

lemma stringify_jsonify_array [simp]: "json_stringify (JArray (map jsonify xs)) = json_stringify (JArray xs)"
  using ser_jsonify [of "[]" "JArray xs"] by (simp only: json_stringify_def jsonify.simps)

lemma fst_comp_jsonify [simp]: "fst \<circ> (\<lambda>(k, v). (k, jsonify v)) = fst"
  by auto

lemma jsonify_wf: "wf_json v \<Longrightarrow> wf_json (jsonify v)"
proof (induction v)
  case (JObject ps)
  then show ?case by (auto simp: list_all_iff case_prod_beta' prod_set_defs comp_def)
qed (simp_all add: list_all_iff num_ok_def num_finite_def num_canon_def)

subsection \<open>Parsed values are well formed\<close>

lemma set_obj_set: "set (obj_set k v ps) \<subseteq> insert (k, v) (set ps)"
  by (auto simp: obj_set_def)

lemma wf_values_obj_set:
  "list_all (\<lambda>p. wf_json (snd p)) ps \<Longrightarrow> wf_json v \<Longrightarrow> list_all (\<lambda>p. wf_json (snd p)) (obj_set k v ps)"
  using set_obj_set [of k v ps] by (auto simp: list_all_iff)

lemma wf_obj_set:
  "wf_json (JObject ps) \<Longrightarrow> wf_json v \<Longrightarrow> wf_json (JObject (obj_set k v ps))"
  by (simp add: keys_ordered_obj_set wf_values_obj_set)


lemma parse_value_step_wf:
  assumes IHv: "\<And>s v r. parse_value f s = Inr (v, r) \<Longrightarrow> wf_json v"
    and IHe: "\<And>acc s v r. parse_elems f acc s = Inr (v, r) \<Longrightarrow> list_all wf_json acc \<Longrightarrow> wf_json v"
    and IHm: "\<And>acc s v r. parse_members f acc s = Inr (v, r) \<Longrightarrow> wf_json (JObject acc) \<Longrightarrow> wf_json v"
    and ok: "parse_value (Suc f) s = Inr (v, r)"
  shows "wf_json v"
proof (cases "skip_ws s")
  case Nil
  with ok show ?thesis by simp
next
  case (Cons c t)
  show ?thesis
  proof (cases "c = CHR ''{'' \<or> c = CHR ''[''")
    case True
    then show ?thesis
      using ok Cons
      by (auto split: if_splits list.splits sum.splits prod.splits dest: IHm)
        (metis IHe IHv list.pred_inject(1) list.pred_inject(2))
  next
    case False
    then show ?thesis
      using ok Cons by (auto split: if_splits option.splits prod.splits dest: lex_number_ok)
  qed
qed


lemma parse_elems_step_wf:
  assumes IHv: "\<And>s v r. parse_value f s = Inr (v, r) \<Longrightarrow> wf_json v"
    and IHe: "\<And>acc s v r. parse_elems f acc s = Inr (v, r) \<Longrightarrow> list_all wf_json acc \<Longrightarrow> wf_json v"
    and ok: "parse_elems (Suc f) acc s = Inr (v, r)" and acc: "list_all wf_json acc"
  shows "wf_json v"
  using ok acc
  by (auto split: if_splits list.splits sum.splits prod.splits)
    (metis IHe IHv list.pred_inject list_all_append)

lemma parse_members_step_wf:
  assumes IHv: "\<And>s v r. parse_value f s = Inr (v, r) \<Longrightarrow> wf_json v"
    and IHm: "\<And>acc s v r. parse_members f acc s = Inr (v, r) \<Longrightarrow> wf_json (JObject acc) \<Longrightarrow> wf_json v"
    and ok: "parse_members (Suc f) acc s = Inr (v, r)" and acc: "wf_json (JObject acc)"
  shows "wf_json v"
  using ok acc
  by (auto split: if_splits list.splits sum.splits prod.splits option.splits
      dest!: IHv intro: IHm wf_obj_set simp del: wf_json.simps)

lemma parse_wf:
  "(\<forall>s v r. parse_value f s = Inr (v, r) \<longrightarrow> wf_json v) \<and>
   (\<forall>acc s v r. parse_elems f acc s = Inr (v, r) \<longrightarrow> list_all wf_json acc \<longrightarrow> wf_json v) \<and>
   (\<forall>acc s v r. parse_members f acc s = Inr (v, r) \<longrightarrow> wf_json (JObject acc) \<longrightarrow> wf_json v)"
proof (induction f)
  case 0
  then show ?case by simp
next
  case (Suc f)
  have IHv: "\<And>s v r. parse_value f s = Inr (v, r) \<Longrightarrow> wf_json v"
    and IHe: "\<And>acc s v r. parse_elems f acc s = Inr (v, r) \<Longrightarrow> list_all wf_json acc \<Longrightarrow> wf_json v"
    and IHm: "\<And>acc s v r. parse_members f acc s = Inr (v, r) \<Longrightarrow> wf_json (JObject acc) \<Longrightarrow> wf_json v"
    using Suc.IH by blast+
  show ?case
  proof (intro conjI allI impI)
    fix s v r
    assume "parse_value (Suc f) s = Inr (v, r)"
    with IHv IHe IHm show "wf_json v" by (rule parse_value_step_wf)
  next
    fix acc s v r
    assume "parse_elems (Suc f) acc s = Inr (v, r)" "list_all wf_json acc"
    with IHv IHe show "wf_json v" by (rule parse_elems_step_wf)
  next
    fix acc s v r
    assume "parse_members (Suc f) acc s = Inr (v, r)" "wf_json (JObject acc)"
    with IHv IHm show "wf_json v" by (rule parse_members_step_wf)
  qed
qed

lemma json_parse_wf_lemma: "json_parse s = Some v \<Longrightarrow> wf_json v"
  using parse_wf [of "Suc (length s)"]
  by (auto simp: json_parse_def split: sum.splits prod.splits if_splits)

subsection \<open>Texts opening with a bracket parse to containers\<close>

lemma parse_elems_array:
  "parse_elems f acc s = Inr (v, r) \<Longrightarrow> \<exists>xs. v = JArray xs"
proof (induction f arbitrary: acc s)
  case 0
  then show ?case by simp
next
  case (Suc f)
  then show ?case
    by (auto split: list.splits if_splits sum.splits prod.splits simp del: parse_value.simps)
qed

lemma parse_members_object:
  "parse_members f acc s = Inr (v, r) \<Longrightarrow> \<exists>ps. v = JObject ps"
proof (induction f arbitrary: acc s)
  case 0
  then show ?case by simp
next
  case (Suc f)
  then show ?case
    by (auto split: list.splits if_splits sum.splits prod.splits option.splits simp del: parse_value.simps)
qed

lemma parse_value_container:
  assumes "skip_ws s = c # t" and "c = CHR ''{'' \<or> c = CHR ''[''"
    and "parse_value f s = Inr (v, r)"
  shows "(\<exists>ps. v = JObject ps) \<or> (\<exists>xs. v = JArray xs)"
proof (cases f)
  case 0
  with assms(3) show ?thesis by simp
next
  case (Suc g)
  from assms(2) show ?thesis
  proof
    assume "c = CHR ''{''"
    with assms(1,3) Suc show ?thesis
      by (auto split: list.splits if_splits dest: parse_members_object simp del: parse_members.simps)
  next
    assume "c = CHR ''[''"
    with assms(1,3) Suc show ?thesis
      by (auto split: list.splits if_splits sum.splits prod.splits dest: parse_elems_array simp del: parse_elems.simps)
  qed
qed

lemma json_parse_container:
  "skip_ws s = c # t \<Longrightarrow> c = CHR ''{'' \<or> c = CHR ''['' \<Longrightarrow> json_parse s = Some v \<Longrightarrow>
   (\<exists>ps. v = JObject ps) \<or> (\<exists>xs. v = JArray xs)"
proof -
  assume a: "skip_ws s = c # t" "c = CHR ''{'' \<or> c = CHR ''[''" "json_parse s = Some v"
  from a(3) obtain r where "parse_value (Suc (length s)) s = Inr (v, r)"
    unfolding json_parse_def
    by (auto split: sum.splits prod.splits if_splits simp del: parse_value.simps)
  with a(1,2) show ?thesis by (rule parse_value_container)
qed

end
