(* ===== verification/JsonCut.thy ===== *)
theory JsonCut
  imports JsonText
begin

text \<open>
  A torn write of the store is never read back: \<open>fs.writeFileSync\<close> truncates
  \<open>data.json\<close> and then writes the text, so a write that fails midway leaves a proper
  prefix of \<open>JSON.stringify(allData, null, 2)\<close>. The main lemma
  (\<open>json_parse_cut_array\<close>) shows that \<open>JSON.parse\<close> rejects every proper prefix of
  the text of a well-formed array. The proof follows the serialisation, as the round
  trip does: \<open>cut_fails ind v\<close> says that the parser, given any proper prefix of the
  text of \<open>v\<close> after white space, fails, or (for a number only) stops with a rest made
  of number characters, which no enclosing array or object accepts.
\<close>

subsection \<open>Failing on a prefix\<close>

definition num_char :: "char \<Rightarrow> bool" where
  "num_char c \<longleftrightarrow> is_digit c \<or> c = CHR ''-'' \<or> c = CHR ''+'' \<or> c = CHR ''.'' \<or> c = CHR ''e'' \<or> c = CHR ''E''"

definition cut_res :: "json \<Rightarrow> parse_error + (json \<times> string) \<Rightarrow> bool" where
  "cut_res v res =
     (case res of Inl _ \<Rightarrow> True | Inr (u, r) \<Rightarrow> (\<exists>x. v = JNumber x) \<and> list_all num_char r)"

definition cut_fails :: "string \<Rightarrow> json \<Rightarrow> bool" where
  "cut_fails ind v \<longleftrightarrow>
     (\<forall>w n f. list_all is_ws w \<longrightarrow> n < length (ser ind v) \<longrightarrow> length (w @ take n (ser ind v)) < f \<longrightarrow>
        cut_res v (parse_value f (w @ take n (ser ind v))))"

definition members_tail :: "nat \<Rightarrow> (string \<times> json) list \<Rightarrow> string \<Rightarrow> parse_error + (json \<times> string)" where
  "members_tail g acc r3 =
     (case skip_ws r3 of
        [] \<Rightarrow> Inl SyntaxError
      | e # r4 \<Rightarrow>
          if e = CHR '','' then parse_members g acc (skip_ws r4)
          else if e = CHR ''}'' then Inr (JObject acc, r4) else Inl SyntaxError)"

subsection \<open>Numbers\<close>

lemma list_all_num_char_dropWhile: "list_all num_char s \<Longrightarrow> list_all num_char (dropWhile P s)"
  by (auto simp: list_all_iff dest: set_dropWhileD)

lemma lex_int_num_char: "list_all num_char s \<Longrightarrow> lex_int s = Some (ip, r) \<Longrightarrow> list_all num_char r"
  by (auto simp: lex_int_def list_all_num_char_dropWhile split: list.splits if_splits)

lemma lex_frac_num_char: "list_all num_char s \<Longrightarrow> lex_frac s = Some (fp, r) \<Longrightarrow> list_all num_char r"
  by (auto simp: lex_frac_def list_all_num_char_dropWhile split: list.splits if_splits)

lemma lex_exp_num_char: "list_all num_char s \<Longrightarrow> lex_exp s = Some (ex, r) \<Longrightarrow> list_all num_char r"
  by (auto simp: lex_exp_def exp_sign_def Let_def list_all_num_char_dropWhile split: list.splits if_splits)

lemma lex_mag_num_char:
  assumes "list_all num_char s" and "lex_mag s = Some (m, ex, r)"
  shows "list_all num_char r"
proof -
  from assms(2) obtain ip s2 fp s3 ex' where
    i: "lex_int s = Some (ip, s2)" and f: "lex_frac s2 = Some (fp, s3)" and e: "lex_exp s3 = Some (ex', r)"
    by (auto simp: lex_mag_def split: option.splits)
  from lex_exp_num_char [OF lex_frac_num_char [OF lex_int_num_char [OF assms(1) i] f] e] show ?thesis .
qed

lemma lex_number_num_char:
  assumes "list_all num_char s" and "lex_number s = Some (x, r)"
  shows "list_all num_char r"
proof -
  obtain neg s1 where s1: "(case s of [] \<Rightarrow> (False, []) | c # r \<Rightarrow> if c = CHR ''-'' then (True, r) else (False, s)) = (neg, s1)"
    by (rule prod.exhaust)
  have "list_all num_char s1"
    using assms(1) s1 by (auto split: list.splits if_splits)
  moreover from assms(2) s1 obtain m ex where "lex_mag s1 = Some (m, ex, r)"
    by (auto simp: lex_number_def split: option.splits)
  ultimately show ?thesis by (rule lex_mag_num_char)
qed

lemma num_char_simps [simp]:
  "num_char CHR ''0''" "num_char CHR ''.''" "num_char CHR ''e''" "num_char CHR ''-''" "num_char CHR ''+''"
  by (simp_all add: num_char_def is_digit_def)

lemma num_char_show_nat: "list_all num_char (show_nat n)"
  using show_nat_digits [of n] by (simp add: list_all_iff num_char_def)

lemma num_char_exp_suffix: "list_all num_char (exp_suffix x)"
  by (simp add: exp_suffix_def num_char_show_nat)

lemma num_char_digits_to_string:
  assumes "list_all num_char s" and "s \<noteq> []"
  shows "list_all num_char (digits_to_string s e)"
proof -
  have "list_all num_char (take k s)" "list_all num_char (drop k s)" "list_all num_char (tl s)"
    "num_char (hd s)" "list_all num_char (replicate k CHR ''0'')" for k
    using assms by (auto simp: list_all_iff dest: in_set_takeD in_set_dropD list.set_sel)
  then show ?thesis
    using assms by (simp add: digits_to_string_def Let_def num_char_exp_suffix)
qed

lemma num_char_num_to_string: "num_finite x \<Longrightarrow> list_all num_char (num_to_string x)"
  by (cases x) (simp_all add: num_finite_def num_to_string_def num_char_digits_to_string num_char_show_nat)

subsection \<open>Strings\<close>

lemma bsl_neq_dq [simp]: "bsl \<noteq> dq"
  by (simp add: bsl_def dq_def)

lemma lex_string_bsl_cut: "decode_escape r = None \<Longrightarrow> lex_string (bsl # r) = None"
  by (simp add: bsl_def dq_def)

lemma decode_escape_Nil: "decode_escape [] = None"
  by (simp add: decode_escape_def)

lemma decode_escape_u_cut: "length r' < 4 \<Longrightarrow> decode_escape (CHR ''u'' # r') = None"
  by (simp add: decode_escape_def hex4_def dq_def bsl_def)

lemma lex_string_quote_char_cut:
  assumes "m < length (quote_char c)"
  shows "lex_string (take m (quote_char c)) = None"
proof -
  define n where "n = (of_char c :: nat)"
  have two: "lex_string (take m [bsl, x]) = None" if "m < 2" for x
    using that by (cases m) (simp_all add: lex_string_bsl_cut decode_escape_Nil bsl_def dq_def)
  consider "c = dq" | "c = bsl" | "n \<in> {8, 9, 10, 12, 13}"
    | "n \<notin> {8, 9, 10, 12, 13}" "n < 32"
    | "c \<noteq> dq" "c \<noteq> bsl" "\<not> n < 32"
    by blast
  then show ?thesis
  proof cases
    case 3
    then have "c \<in> {CHR 0x08, CHR 0x09, CHR 0x0A, CHR 0x0C, CHR 0x0D}"
      by (auto simp: n_def intro: of_char_eqI)
    with assms two show ?thesis by (auto simp: quote_char_cases)
  next
    case 4
    then have q: "quote_char c = [bsl, CHR ''u'', CHR ''0'', CHR ''0'', hex_char (n div 16), hex_char (n mod 16)]"
      by (simp add: quote_char_ctrl n_def)
    show ?thesis
    proof (cases m)
      case (Suc k)
      then have "decode_escape (take k [CHR ''u'', CHR ''0'', CHR ''0'', hex_char (n div 16), hex_char (n mod 16)]) = None"
        using assms q by (cases k) (simp_all add: decode_escape_u_cut decode_escape_Nil)
      with Suc q show ?thesis by (simp add: lex_string_bsl_cut)
    qed simp
  next
    case 5
    with assms show ?thesis by (simp add: quote_char_plain n_def)
  qed (use assms two in \<open>simp_all add: quote_char_cases\<close>)
qed

lemma lex_string_cut: "lex_string (take m (concat (map quote_char s))) = None"
proof (induction s arbitrary: m)
  case Nil
  then show ?case by simp
next
  case (Cons c s)
  show ?case
  proof (cases "m < length (quote_char c)")
    case True
    then show ?thesis by (simp add: lex_string_quote_char_cut)
  next
    case False
    then show ?thesis by (simp add: lex_string_quote_char Cons.IH)
  qed
qed

subsection \<open>Scalars\<close>

lemma skip_ws_all_ws: "list_all is_ws w \<Longrightarrow> skip_ws w = []"
  by (simp add: skip_ws_def list_all_iff)

lemma parse_value_ws_only: "list_all is_ws w \<Longrightarrow> \<exists>e. parse_value f w = Inl e"
  by (cases f) (simp_all add: skip_ws_all_ws)

lemma cut_res_Inl [simp]: "cut_res v (Inl e)"
  by (simp add: cut_res_def)

lemma cut_num:
  assumes "list_all is_ws w" and "0 < n" and "num_finite x"
  shows "cut_res (JNumber x) (parse_value (Suc g) (w @ take n (num_to_string x)))"
proof -
  obtain c t where ct: "take n (num_to_string x) = c # t" and c: "c = hd (num_to_string x)"
    using assms(2) num_to_string_hd [of x] by (cases "num_to_string x"; cases n) auto
  have nc: "list_all num_char (c # t)"
    using num_char_num_to_string [OF assms(3)] ct by (metis list_all_iff in_set_takeD)
  have "\<not> is_ws c" "c \<notin> {CHR ''{'', CHR ''['', dq, CHR ''t'', CHR ''f'', CHR ''n''}"
    using num_to_string_hd [of x] c by auto
  then have "parse_value (Suc g) (c # t) =
      (case lex_number (c # t) of None \<Rightarrow> Inl SyntaxError | Some (n', r') \<Rightarrow> Inr (JNumber n', r'))"
    by (simp add: skip_ws_stop)
  then show ?thesis
    using parse_value_ws [OF assms(1), of g "c # t"] lex_number_num_char [OF nc] ct
    by (auto simp: cut_res_def split: option.splits simp del: parse_value.simps)
qed

lemma cut_string:
  assumes "0 < n" and "n < length (quote s)"
  shows "\<exists>e. parse_value (Suc g) (take n (quote s)) = Inl e"
proof -
  obtain k where n: "n = Suc k" using assms(1) by (cases n) auto
  have "k \<le> length (concat (map quote_char s))" using assms(2) n by (simp add: quote_def)
  then have "take n (quote s) = dq # take k (concat (map quote_char s))"
    by (simp add: quote_def n)
  then show ?thesis by (simp add: skip_ws_stop lex_string_cut)
qed

lemma cut_literal:
  assumes "0 < n" and "n < length t" and "t = ''null'' \<or> t = ''true'' \<or> t = ''false''"
  shows "\<exists>e. parse_value (Suc g) (take n t) = Inl e"
proof -
  have "n = 1 \<or> n = 2 \<or> n = 3 \<or> n = 4" using assms by auto
  with assms(2,3) show ?thesis by (auto simp: skip_ws_stop dq_def)
qed

lemma cut_fails_scalar:
  assumes "\<forall>xs. v \<noteq> JArray xs" and "\<forall>ps. v \<noteq> JObject ps"
  shows "cut_fails ind v"
  unfolding cut_fails_def
proof (intro allI impI)
  fix w n f
  assume ws: "list_all is_ws w" and n: "n < length (ser ind v)" and len: "length (w @ take n (ser ind v)) < f"
  then obtain g where f: "f = Suc g" by (cases f) auto
  show "cut_res v (parse_value f (w @ take n (ser ind v)))"
  proof (cases "n = 0")
    case True
    with ws show ?thesis using parse_value_ws_only [of w f] by auto
  next
    case False
    then have pos: "0 < n" by simp
    have eq: "parse_value f (w @ take n (ser ind v)) = parse_value (Suc g) (take n (ser ind v))"
      using parse_value_ws [OF ws] f by (simp del: parse_value.simps)
    show ?thesis
    proof (cases v)
      case JNull
      with n pos show ?thesis using cut_literal [of n "''null''" g] using eq by (auto simp del: parse_value.simps)
    next
      case (JBool b)
      with n pos show ?thesis
        using cut_literal [of n "''true''" g] cut_literal [of n "''false''" g] using eq by (auto simp del: parse_value.simps)
    next
      case (JNumber x)
      show ?thesis
      proof (cases "num_finite x")
        case True
        with JNumber ws pos f show ?thesis by (simp add: cut_num del: parse_value.simps)
      next
        case False
        with JNumber n pos show ?thesis
          using cut_literal [of n "''null''" g] eq by (auto simp del: parse_value.simps)
      qed
    next
      case (JString s)
      with n pos show ?thesis using cut_string [of n s g] using eq by (auto simp del: parse_value.simps)
    qed (use assms in simp_all)
  qed
qed

subsection \<open>Cutting a text in two or three parts\<close>

lemma take_split2:
  assumes "k < length (A @ B)"
  obtains (first) "take k (A @ B) = take k A" "k \<le> length A"
        | (second) j where "take k (A @ B) = A @ take j B" "0 < j" "j < length B"
proof (cases "k \<le> length A")
  case True
  then show ?thesis by (intro first) simp_all
next
  case False
  then show ?thesis using assms by (intro second [of "k - length A"]) simp_all
qed

lemma take_split3:
  assumes "k < length (A @ B @ C)"
  obtains (first) "take k (A @ B @ C) = take k A" "k \<le> length A"
        | (mid) j where "take k (A @ B @ C) = A @ take j B" "0 < j" "j < length B"
        | (last) j where "take k (A @ B @ C) = A @ B @ take j C" "j < length C"
proof (cases "k < length A + length B")
  case True
  then have "k < length (A @ B)" by simp
  then show ?thesis
  proof (cases rule: take_split2)
    case first
    then show ?thesis using that(1) by simp
  next
    case (second j)
    then show ?thesis using that(2) [of j] True by simp
  qed
next
  case False
  then show ?thesis using assms that(3) [of "k - length A - length B"] by simp
qed

lemma list_all_take: "list_all P xs \<Longrightarrow> list_all P (take k xs)"
  by (auto simp: list_all_iff dest: in_set_takeD)

lemma ser_follow_take: "ser_follow r \<Longrightarrow> ser_follow (take j r)"
  by (cases r; cases j) (simp_all add: ser_follow_def)

lemma num_char_stop: "num_char c \<Longrightarrow> \<not> is_ws c \<and> c \<noteq> CHR '','' \<and> c \<noteq> CHR '']'' \<and> c \<noteq> CHR ''}''"
  by (auto simp: num_char_def is_ws_def is_digit_def)

lemma skip_ws_Nil [simp]: "skip_ws [] = []"
  by (simp add: skip_ws_def)

lemma skip_ws_num_char: "list_all num_char r \<Longrightarrow> skip_ws r = r"
  by (cases r) (simp_all add: skip_ws_stop num_char_stop)

lemma skip_ws_cut:
  "list_all is_ws A \<Longrightarrow> 0 < j \<Longrightarrow> B \<noteq> [] \<Longrightarrow> \<not> is_ws (hd B) \<Longrightarrow> skip_ws (A @ take j B) = take j B"
  by (cases B; cases j) (simp_all add: skip_ws_append_ws skip_ws_stop)

lemma parse_elems_num_char: "list_all num_char r \<Longrightarrow> \<exists>e. parse_elems f acc r = Inl e"
  by (cases f; cases r) (auto simp: skip_ws_num_char num_char_stop skip_ws_stop)

subsection \<open>Arrays\<close>

lemma value_cut_then:
  assumes c: "cut_fails ind' y" and ws: "list_all is_ws w" and j: "0 < j" "j < length (ser ind' y)"
    and len: "length (w @ take j (ser ind' y)) < g"
    and k: "\<And>u r. list_all num_char r \<Longrightarrow> \<exists>e. K u r = Inl e"
  shows "\<exists>e. (case parse_value g (w @ take j (ser ind' y)) of Inl err \<Rightarrow> Inl err | Inr (u, r) \<Rightarrow> K u r) = Inl e"
proof -
  have "cut_res y (parse_value g (w @ take j (ser ind' y)))"
    using c ws j len unfolding cut_fails_def by blast
  then show ?thesis using k by (auto simp: cut_res_def split: sum.splits prod.splits)
qed

lemma elems_cut:
  assumes IH: "\<forall>y \<in> set ys. cut_fails ind' y \<and> parses_back ind' y"
    and ws: "list_all is_ws ind'" "list_all is_ws ind"
    and n: "n < length (concat (map (\<lambda>y. (CHR '','' # nl # ind') @ ser ind' y) ys) @ nl # ind @ '']'')"
    and len: "length (take n (concat (map (\<lambda>y. (CHR '','' # nl # ind') @ ser ind' y) ys) @ nl # ind @ '']'')) < f"
  shows "\<exists>e. parse_elems f acc (take n (concat (map (\<lambda>y. (CHR '','' # nl # ind') @ ser ind' y) ys) @ nl # ind @ '']'')) = Inl e"
  using IH n len
proof (induction ys arbitrary: acc f n)
  case Nil
  have "list_all is_ws (take n (nl # ind @ '']''))"
    using Nil.prems(2) ws by (cases n) (auto simp: list_all_iff dest: in_set_takeD)
  then show ?case by (cases f) (simp_all add: skip_ws_all_ws)
next
  case (Cons y ys)
  define R where "R = concat (map (\<lambda>y. (CHR '','' # nl # ind') @ ser ind' y) ys) @ nl # ind @ '']''"
  obtain g where f: "f = Suc g" using Cons.prems(3) by (cases f) auto
  show ?case
  proof (cases n)
    case 0
    then show ?thesis by (simp add: f)
  next
    case (Suc k)
    have eq: "take n (concat (map (\<lambda>y. (CHR '','' # nl # ind') @ ser ind' y) (y # ys)) @ nl # ind @ '']'') =
        CHR '','' # take k ((nl # ind') @ ser ind' y @ R)"
      by (simp add: Suc R_def)
    have k: "k < length ((nl # ind') @ ser ind' y @ R)" using Cons.prems(2) Suc by (simp add: R_def)
    have lenk: "length (take k ((nl # ind') @ ser ind' y @ R)) < g"
      using Cons.prems(3) unfolding eq f by simp
    have yc: "cut_fails ind' y" and yp: "parses_back ind' y" and ysIH: "\<forall>y \<in> set ys. cut_fails ind' y \<and> parses_back ind' y"
      using Cons.prems(1) by simp_all
    have "\<exists>e. (case parse_value g (take k ((nl # ind') @ ser ind' y @ R)) of
                 Inl err \<Rightarrow> Inl err | Inr (v, r') \<Rightarrow> parse_elems g (acc @ [v]) r') = Inl e"
      using k
    proof (cases rule: take_split3)
      case first
      then have "list_all is_ws (take k (nl # ind'))" using ws by (simp add: list_all_take)
      then obtain e where "parse_value g (take k (nl # ind')) = Inl e" using parse_value_ws_only by blast
      with first show ?thesis by simp
    next
      case (mid j)
      have "\<exists>e. (case parse_value g ((nl # ind') @ take j (ser ind' y)) of
                Inl err \<Rightarrow> Inl err | Inr (u, r) \<Rightarrow> parse_elems g (acc @ [u]) r) = Inl e"
        by (rule value_cut_then [OF yc _ mid(2,3)]) (use ws lenk [unfolded mid(1)] in \<open>simp_all add: parse_elems_num_char\<close>)
      with mid(1) show ?thesis by simp
    next
      case (last j)
      have "ser_follow R" unfolding R_def append_Cons append_Nil by (rule ser_follow_elems)
      then have "parse_value g ((nl # ind') @ ser ind' y @ take j R) = Inr (jsonify y, take j R)"
        using yp ws lenk [unfolded last(1)] by (intro parses_backD) (simp_all add: ser_follow_take)
      moreover have "\<exists>e. parse_elems g (acc @ [jsonify y]) (take j R) = Inl e"
        using Cons.IH [OF ysIH, of j g "acc @ [jsonify y]"] last lenk [unfolded last(1)] by (simp add: R_def)
      ultimately show ?thesis using last(1) by simp
    qed
    then show ?thesis unfolding f eq by (simp add: skip_ws_stop del: parse_value.simps)
  qed
qed

lemma parse_value_bracket:
  "parse_value (Suc g) (CHR ''['' # q) =
     (case skip_ws q of
        [] \<Rightarrow> Inl SyntaxError
      | d # r' \<Rightarrow> if d = CHR '']'' then Inr (JArray [], r')
                 else (case parse_value g (d # r') of
                         Inl err \<Rightarrow> Inl err | Inr (v, r'') \<Rightarrow> parse_elems g [v] r''))"
  by (simp add: skip_ws_stop)

lemma parse_value_brace:
  "parse_value (Suc g) (CHR ''{'' # q) =
     (case skip_ws q of
        [] \<Rightarrow> Inl SyntaxError
      | d # r' \<Rightarrow> if d = CHR ''}'' then Inr (JObject [], r') else parse_members g [] (d # r'))"
  by (simp add: skip_ws_stop)

text \<open>For a container it is enough that every cut fails on its own: the white space in
  front and the fuel are dealt with once.\<close>

lemma cut_fails_container:
  assumes "\<And>n g. n < length (ser ind v) \<Longrightarrow> length (take n (ser ind v)) < Suc g \<Longrightarrow>
             \<exists>e. parse_value (Suc g) (take n (ser ind v)) = Inl e"
  shows "cut_fails ind v"
  unfolding cut_fails_def
proof (intro allI impI)
  fix w n f
  assume w: "list_all is_ws w" and n: "n < length (ser ind v)" and len: "length (w @ take n (ser ind v)) < f"
  then obtain g where f: "f = Suc g" by (cases f) auto
  have "\<exists>e. parse_value (Suc g) (take n (ser ind v)) = Inl e" using assms n len f by simp
  then show "cut_res v (parse_value f (w @ take n (ser ind v)))"
    using parse_value_ws [OF w, of g] by (auto simp: f cut_res_def simp del: parse_value.simps ser.simps)
qed

text \<open>A cut inside an array after its opening bracket: the first element is cut (it fails
  by \<open>value_cut_then\<close>) or complete with the rest of the array cut (\<open>elems_cut\<close>).\<close>

lemma array_body_cut:
  assumes xc: "cut_fails ind' x" and xp: "parses_back ind' x"
    and ysIH: "\<forall>y \<in> set ys. cut_fails ind' y \<and> parses_back ind' y"
    and ws: "list_all is_ws ind'" "list_all is_ws ind"
    and R: "R = concat (map (\<lambda>y. (CHR '','' # nl # ind') @ ser ind' y) ys) @ nl # ind @ '']''"
    and k: "k < length ((nl # ind') @ ser ind' x @ R)"
    and lenk: "length (take k ((nl # ind') @ ser ind' x @ R)) < g"
  shows "\<exists>e. (case skip_ws (take k ((nl # ind') @ ser ind' x @ R)) of
                  [] \<Rightarrow> Inl SyntaxError
                | d # r' \<Rightarrow> if d = CHR '']'' then Inr (JArray [], r')
                           else (case parse_value g (d # r') of
                                   Inl err \<Rightarrow> Inl err | Inr (v, r'') \<Rightarrow> parse_elems g [v] r'')) = Inl e"
proof -
  obtain d t where dt: "ser ind' x = d # t" "\<not> is_ws d" "d \<noteq> CHR '']''"
    using ser_hd [of ind' x] by blast
  from k show ?thesis
  proof (cases rule: take_split3)
    case first
    then have "list_all is_ws (take k (nl # ind'))" using ws by (simp add: list_all_take)
    with first show ?thesis by (simp add: skip_ws_all_ws)
  next
    case (mid j)
    have "skip_ws ((nl # ind') @ take j (ser ind' x)) = take j (ser ind' x)"
      by (rule skip_ws_cut) (use ws mid dt in simp_all)
    then have sk: "skip_ws (take k ((nl # ind') @ ser ind' x @ R)) = take j (ser ind' x)"
      by (simp only: mid(1))
    obtain t' where t': "take j (ser ind' x) = d # t'" using mid(2) dt by (cases j) auto
    have "\<exists>e. (case parse_value g ([] @ take j (ser ind' x)) of
            Inl err \<Rightarrow> Inl err | Inr (u, r) \<Rightarrow> parse_elems g [u] r) = Inl e"
      by (rule value_cut_then [OF xc _ mid(2,3)])
         (use lenk [unfolded mid(1)] in \<open>simp_all add: parse_elems_num_char\<close>)
    with sk t' dt show ?thesis by simp
  next
    case (last j)
    have "ser_follow R" unfolding R append_Cons append_Nil by (rule ser_follow_elems)
    then have pv: "parse_value g ([] @ ser ind' x @ take j R) = Inr (jsonify x, take j R)"
      using xp lenk [unfolded last(1)] by (intro parses_backD) (simp_all add: ser_follow_take)
    have pe: "\<exists>e. parse_elems g [jsonify x] (take j R) = Inl e"
      using elems_cut [OF ysIH ws, of j g "[jsonify x]"] last lenk [unfolded last(1)] by (simp add: R)
    have h: "skip_ws ((nl # ind') @ ser ind' x @ take j R) = ser ind' x @ take j R"
      by (rule skip_ws_ser) (use ws in simp)
    have sk: "skip_ws (take k ((nl # ind') @ ser ind' x @ R)) = d # t @ take j R"
      by (subst last(1), simp only: h, simp add: dt(1))
    from pv pe sk dt show ?thesis by simp
  qed
qed

lemma cut_fails_array:
  assumes IH: "\<forall>x \<in> set xs. cut_fails (ind @ gap) x \<and> parses_back (ind @ gap) x"
    and ws: "list_all is_ws ind"
  shows "cut_fails ind (JArray xs)"
proof (rule cut_fails_container)
  fix n g
  assume n: "n < length (ser ind (JArray xs))" and len: "length (take n (ser ind (JArray xs))) < Suc g"
  have ws': "list_all is_ws (ind @ gap)" using ws by simp
  show "\<exists>e. parse_value (Suc g) (take n (ser ind (JArray xs))) = Inl e"
  proof (cases n)
    case 0
    then show ?thesis by simp
  next
    case (Suc k)
    show ?thesis
    proof (cases xs)
      case Nil
      with n Suc show ?thesis by (simp add: skip_ws_stop)
    next
      case (Cons x ys)
      define R where "R = concat (map (\<lambda>y. (CHR '','' # nl # (ind @ gap)) @ ser (ind @ gap) y) ys) @
        nl # ind @ '']''"
      have T: "ser ind (JArray xs) = CHR ''['' # (nl # (ind @ gap)) @ ser (ind @ gap) x @ R"
        using ser_array_Cons [of ind x ys "[]"] by (simp add: Cons R_def)
      have k: "k < length ((nl # (ind @ gap)) @ ser (ind @ gap) x @ R)" using n Suc T by simp
      have lenk: "length (take k ((nl # (ind @ gap)) @ ser (ind @ gap) x @ R)) < g"
        using len Suc T by simp
      have "\<forall>y \<in> set ys. cut_fails (ind @ gap) y \<and> parses_back (ind @ gap) y"
        using IH Cons by simp
      with IH Cons ws' ws R_def k lenk
      have "\<exists>e. (case skip_ws (take k ((nl # (ind @ gap)) @ ser (ind @ gap) x @ R)) of
                  [] \<Rightarrow> Inl SyntaxError
                | d # r' \<Rightarrow> if d = CHR '']'' then Inr (JArray [], r')
                           else (case parse_value g (d # r') of
                                   Inl err \<Rightarrow> Inl err | Inr (v, r'') \<Rightarrow> parse_elems g [v] r'')) = Inl e"
        by (intro array_body_cut) simp_all
      then show ?thesis unfolding T Suc by (simp only: take_Suc_Cons parse_value_bracket)
    qed
  qed
qed

subsection \<open>Objects\<close>

lemma parse_members_key:
  "parse_members (Suc g) acc (dq # concat (map quote_char kk) @ dq # r1) =
     (case skip_ws r1 of
        [] \<Rightarrow> Inl SyntaxError
      | d # r2 \<Rightarrow>
          if d \<noteq> CHR '':'' then Inl SyntaxError
          else (case parse_value g r2 of
                  Inl err \<Rightarrow> Inl err
                | Inr (v, r3) \<Rightarrow> members_tail g (obj_set kk v acc) r3))"
  by (simp add: lex_string_quote members_tail_def split: list.split sum.split prod.split)

lemma members_tail_num_char: "list_all num_char r \<Longrightarrow> \<exists>e. members_tail g acc r = Inl e"
  by (cases r) (auto simp: members_tail_def skip_ws_num_char num_char_stop)

text \<open>A cut in a member after the colon: in the space, in the value, or in what follows.\<close>

lemma member_value_cut:
  assumes vc: "cut_fails ind' v" and vp: "parses_back ind' v" and fol: "ser_follow Rm"
    and K: "\<And>i acc'. i < length Rm \<Longrightarrow> length (take i Rm) < g \<Longrightarrow> \<exists>e. members_tail g acc' (take i Rm) = Inl e"
    and i: "i < length ([CHR '' ''] @ ser ind' v @ Rm)"
    and leni: "length (take i ([CHR '' ''] @ ser ind' v @ Rm)) < g"
  shows "\<exists>e. (case parse_value g (take i ([CHR '' ''] @ ser ind' v @ Rm)) of
               Inl err \<Rightarrow> Inl err | Inr (u, r3) \<Rightarrow> members_tail g (obj_set kk u acc) r3) = Inl e"
  using i
proof (cases rule: take_split3)
  case first
  then have "list_all is_ws (take i [CHR '' ''])" by (cases i) simp_all
  then obtain e where "parse_value g (take i [CHR '' '']) = Inl e" using parse_value_ws_only by blast
  with first show ?thesis by simp
next
  case (mid i')
  have "\<exists>e. (case parse_value g ([CHR '' ''] @ take i' (ser ind' v)) of
            Inl err \<Rightarrow> Inl err | Inr (u, r3) \<Rightarrow> members_tail g (obj_set kk u acc) r3) = Inl e"
    by (rule value_cut_then [OF vc _ mid(2,3)])
       (use leni [unfolded mid(1)] in \<open>simp_all add: members_tail_num_char\<close>)
  with mid(1) show ?thesis by simp
next
  case (last i')
  have "parse_value g ([CHR '' ''] @ ser ind' v @ take i' Rm) = Inr (jsonify v, take i' Rm)"
    using vp fol leni [unfolded last(1)] by (intro parses_backD) (simp_all add: ser_follow_take)
  with last K [of i' "obj_set kk (jsonify v) acc"] leni [unfolded last(1)] show ?thesis by simp
qed

lemma member_cut:
  assumes vc: "cut_fails ind' v" and vp: "parses_back ind' v" and fol: "ser_follow Rm"
    and K: "\<And>i acc'. i < length Rm \<Longrightarrow> length (take i Rm) < g \<Longrightarrow> \<exists>e. members_tail g acc' (take i Rm) = Inl e"
    and n: "n < length (ser_member ind' (kk, v) @ Rm)"
    and len: "length (take n (ser_member ind' (kk, v) @ Rm)) < Suc g"
  shows "\<exists>e. parse_members (Suc g) acc (take n (ser_member ind' (kk, v) @ Rm)) = Inl e"
proof (cases n)
  case 0
  then show ?thesis by simp
next
  case (Suc k)
  define A where "A = concat (map quote_char kk)"
  define B where "B = dq # CHR '':'' # CHR '' '' # ser ind' v @ Rm"
  have T: "ser_member ind' (kk, v) @ Rm = dq # A @ B"
    by (simp add: ser_member_def quote_def A_def B_def)
  have k: "k < length (A @ B)" using n Suc T by simp
  have lenk: "length (take k (A @ B)) < g" using len Suc T by simp
  from k show ?thesis
  proof (cases rule: take_split2)
    case first
    then show ?thesis by (simp add: T Suc A_def lex_string_cut)
  next
    case (second j)
    then obtain j1 where j1: "j = Suc j1" by (cases j) auto
    have B: "take j B = dq # take j1 (CHR '':'' # CHR '' '' # ser ind' v @ Rm)" by (simp add: B_def j1)
    have lenj: "length (take j1 (CHR '':'' # CHR '' '' # ser ind' v @ Rm)) < g"
      using lenk unfolding second(1) B by simp
    have tail: "\<exists>e. (case skip_ws (take j1 (CHR '':'' # CHR '' '' # ser ind' v @ Rm)) of
              [] \<Rightarrow> Inl SyntaxError
            | d # r2 \<Rightarrow> if d \<noteq> CHR '':'' then Inl SyntaxError
                       else (case parse_value g r2 of
                               Inl err \<Rightarrow> Inl err | Inr (u, r3) \<Rightarrow> members_tail g (obj_set kk u acc) r3)) = Inl e"
    proof (cases j1)
      case 0
      then show ?thesis by simp
    next
      case (Suc i)
      have i: "i < length ([CHR '' ''] @ ser ind' v @ Rm)" using second(3) j1 Suc by (simp add: B_def)
      have leni: "length (take i ([CHR '' ''] @ ser ind' v @ Rm)) < g" using lenj Suc by simp
      show ?thesis
        using member_value_cut [OF vc vp fol K i leni, of kk acc] by (simp add: Suc skip_ws_stop del: parse_value.simps)
    qed
    have eq: "take n (ser_member ind' (kk, v) @ Rm) =
        dq # concat (map quote_char kk) @ dq # take j1 (CHR '':'' # CHR '' '' # ser ind' v @ Rm)"
      using second(1) B by (simp add: T Suc A_def)
    from tail show ?thesis by (simp only: eq parse_members_key)
  qed
qed

lemma parse_members_Nil: "\<exists>e. parse_members g acc [] = Inl e"
  by (cases g) simp_all

text \<open>Cuts in what follows a member: the white space before the closing brace, or a comma,
  the white space and a cut of the next members.\<close>

lemma close_tail_cut:
  "i < length (nl # ind @ ''}'') \<Longrightarrow> list_all is_ws ind \<Longrightarrow>
   \<exists>e. members_tail g acc' (take i (nl # ind @ ''}'')) = Inl e"
proof -
  assume "i < length (nl # ind @ ''}'')" and ws: "list_all is_ws ind"
  then have "list_all is_ws (take i (nl # ind @ ''}''))"
    by (cases i) (auto simp: list_all_iff dest: in_set_takeD)
  then show ?thesis by (simp add: members_tail_def skip_ws_all_ws)
qed

lemma comma_tail_cut:
  assumes ws: "list_all is_ws ind'"
    and X: "\<And>j acc'. j < length X \<Longrightarrow> length (take j X) < g \<Longrightarrow> \<exists>e. parse_members g acc' (take j X) = Inl e"
    and hd: "\<exists>t. X = dq # t"
    and i: "i < length (CHR '','' # (nl # ind') @ X)"
    and li: "length (take i (CHR '','' # (nl # ind') @ X)) < g"
  shows "\<exists>e. members_tail g acc' (take i (CHR '','' # (nl # ind') @ X)) = Inl e"
proof (cases i)
  case 0
  then show ?thesis by (simp add: members_tail_def)
next
  case (Suc i1)
  have i1: "i1 < length ((nl # ind') @ X)" using i Suc by simp
  have l1: "length (take i1 ((nl # ind') @ X)) < g" using li Suc by simp
  have "\<exists>e. parse_members g acc' (skip_ws (take i1 ((nl # ind') @ X))) = Inl e"
    using i1
  proof (cases rule: take_split2)
    case first
    then have "list_all is_ws (take i1 (nl # ind'))" using ws by (simp add: list_all_take)
    with first show ?thesis by (simp add: skip_ws_all_ws parse_members_Nil)
  next
    case (second j)
    have "skip_ws ((nl # ind') @ take j X) = take j X"
      by (rule skip_ws_cut) (use ws second hd in auto)
    moreover have "\<exists>e. parse_members g acc' (take j X) = Inl e"
      using X [of j acc'] second l1 [unfolded second(1)] by simp
    ultimately show ?thesis using second(1) by simp
  qed
  then show ?thesis by (simp add: Suc members_tail_def skip_ws_stop)
qed

lemma members_cut:
  assumes IH: "\<forall>q \<in> set (p # qs). cut_fails ind' (snd q) \<and> parses_back ind' (snd q)"
    and ws: "list_all is_ws ind'" "list_all is_ws ind"
    and n: "n < length (ser_member ind' p @ concat (map (\<lambda>q. CHR '','' # nl # ind' @ ser_member ind' q) qs) @
                       nl # ind @ ''}'')"
    and len: "length (take n (ser_member ind' p @ concat (map (\<lambda>q. CHR '','' # nl # ind' @ ser_member ind' q) qs) @
                       nl # ind @ ''}'')) < f"
  shows "\<exists>e. parse_members f acc (take n (ser_member ind' p @
           concat (map (\<lambda>q. CHR '','' # nl # ind' @ ser_member ind' q) qs) @ nl # ind @ ''}'')) = Inl e"
  using IH n len
proof (induction qs arbitrary: p acc f n)
  case Nil
  obtain kk v where p: "p = (kk, v)" by fastforce
  obtain g where f: "f = Suc g" using Nil.prems(3) by (cases f) auto
  have K: "\<exists>e. members_tail g acc' (take i (nl # ind @ ''}'')) = Inl e"
    if "i < length (nl # ind @ ''}'')" for i acc'
    using that ws(2) by (rule close_tail_cut)
  show ?case
    unfolding f p by (rule member_cut) (use Nil.prems K in \<open>simp_all add: ser_follow_def p f\<close>)
next
  case (Cons q qs)
  obtain kk v where p: "p = (kk, v)" by fastforce
  obtain g where f: "f = Suc g" using Cons.prems(3) by (cases f) auto
  define Rm' where "Rm' = concat (map (\<lambda>q. CHR '','' # nl # ind' @ ser_member ind' q) qs) @ nl # ind @ ''}''"
  have qIH: "\<forall>q' \<in> set (q # qs). cut_fails ind' (snd q') \<and> parses_back ind' (snd q')"
    using Cons.prems(1) by simp
  have K: "\<exists>e. members_tail g acc' (take i (CHR '','' # (nl # ind') @ ser_member ind' q @ Rm')) = Inl e"
    if "i < length (CHR '','' # (nl # ind') @ ser_member ind' q @ Rm')"
      and "length (take i (CHR '','' # (nl # ind') @ ser_member ind' q @ Rm')) < g" for i acc'
  proof (rule comma_tail_cut [OF ws(1) _ _ that])
    show "\<exists>e. parse_members g acc' (take j (ser_member ind' q @ Rm')) = Inl e"
      if "j < length (ser_member ind' q @ Rm')" "length (take j (ser_member ind' q @ Rm')) < g" for j acc'
      using Cons.IH [OF qIH, of j g acc'] that by (simp add: Rm'_def)
  qed (simp add: ser_member_def quote_def)
  have T: "concat (map (\<lambda>q. CHR '','' # nl # ind' @ ser_member ind' q) (q # qs)) @ nl # ind @ ''}'' =
      CHR '','' # (nl # ind') @ ser_member ind' q @ Rm'"
    by (simp add: Rm'_def)
  show ?case
    unfolding f p T by (rule member_cut) (use Cons.prems K in \<open>simp_all add: ser_follow_def p f T Rm'_def\<close>)
qed

lemma cut_fails_object:
  assumes IH: "\<forall>p \<in> set ps. cut_fails (ind @ gap) (snd p) \<and> parses_back (ind @ gap) (snd p)"
    and ws: "list_all is_ws ind"
  shows "cut_fails ind (JObject ps)"
proof (rule cut_fails_container)
  fix n g
  assume n: "n < length (ser ind (JObject ps))" and len: "length (take n (ser ind (JObject ps))) < Suc g"
  have ws': "list_all is_ws (ind @ gap)" using ws by simp
  show "\<exists>e. parse_value (Suc g) (take n (ser ind (JObject ps))) = Inl e"
  proof (cases n)
    case 0
    then show ?thesis by simp
  next
    case (Suc k)
    show ?thesis
    proof (cases ps)
      case Nil
      with n Suc show ?thesis by (simp add: skip_ws_stop)
    next
      case (Cons p qs)
      define M where "M = concat (map (\<lambda>q. CHR '','' # nl # (ind @ gap) @ ser_member (ind @ gap) q) qs) @
        nl # ind @ ''}''"
      have T: "ser ind (JObject ps) = CHR ''{'' # (nl # (ind @ gap)) @ ser_member (ind @ gap) p @ M"
        using ser_object_Cons [of ind p qs "[]"] by (simp add: Cons M_def)
      have k: "k < length ((nl # (ind @ gap)) @ (ser_member (ind @ gap) p @ M))" using n Suc T by simp
      have lenk: "length (take k ((nl # (ind @ gap)) @ (ser_member (ind @ gap) p @ M))) < g"
        using len Suc T by simp
      have pIH: "\<forall>q \<in> set (p # qs). cut_fails (ind @ gap) (snd q) \<and> parses_back (ind @ gap) (snd q)"
        using IH Cons by simp
      have "\<exists>e. (case skip_ws (take k ((nl # (ind @ gap)) @ (ser_member (ind @ gap) p @ M))) of
                  [] \<Rightarrow> Inl SyntaxError
                | d # r' \<Rightarrow> if d = CHR ''}'' then Inr (JObject [], r') else parse_members g [] (d # r')) = Inl e"
        using k
      proof (cases rule: take_split2)
        case first
        then have "list_all is_ws (take k (nl # (ind @ gap)))" using ws' by (simp add: list_all_take)
        with first show ?thesis by (simp add: skip_ws_all_ws)
      next
        case (second j)
        have sk: "skip_ws ((nl # (ind @ gap)) @ take j (ser_member (ind @ gap) p @ M)) =
            take j (ser_member (ind @ gap) p @ M)"
          by (rule skip_ws_cut) (use ws' second in \<open>simp_all add: ser_member_def quote_def\<close>)
        obtain t' where t': "take j (ser_member (ind @ gap) p @ M) = dq # t'"
          using second(2) by (cases j) (auto simp: ser_member_def quote_def)
        have "\<exists>e. parse_members g [] (take j (ser_member (ind @ gap) p @ M)) = Inl e"
          using members_cut [OF pIH ws' ws, of j g "[]"] second lenk [unfolded second(1)] by (simp add: M_def)
        with sk t' second(1) show ?thesis by simp
      qed
      then show ?thesis unfolding T Suc by (simp only: take_Suc_Cons parse_value_brace)
    qed
  qed
qed

lemma cut_fails_wf: "wf_json v \<Longrightarrow> list_all is_ws ind \<Longrightarrow> cut_fails ind v"
proof (induction v arbitrary: ind)
  case (JArray xs)
  have ws': "list_all is_ws (ind @ gap)" using JArray.prems by simp
  have "\<forall>x \<in> set xs. cut_fails (ind @ gap) x \<and> parses_back (ind @ gap) x"
    using JArray.IH JArray.prems ws' parses_back_wf by (simp add: list_all_iff)
  with JArray.prems show ?case by (intro cut_fails_array) simp_all
next
  case (JObject ps)
  have "cut_fails (ind @ gap) (snd p) \<and> parses_back (ind @ gap) (snd p)" if p: "p \<in> set ps" for p
  proof -
    have "snd p \<in> Basic_BNFs.snds p" by (simp add: prod_set_defs)
    moreover have "wf_json (snd p)" using JObject.prems p by (simp add: list_all_iff)
    ultimately show ?thesis using JObject.IH p JObject.prems(2) parses_back_wf by simp
  qed
  with JObject.prems show ?case by (intro cut_fails_object) simp_all
qed (simp_all add: cut_fails_scalar)

lemma json_parse_cut_array:
  assumes "list_all wf_json xs" and "n < length (json_stringify (JArray xs))"
  shows "json_parse (take n (json_stringify (JArray xs))) = None"
proof -
  have "cut_fails [] (JArray xs)" by (rule cut_fails_wf) (use assms(1) in simp_all)
  then have "list_all is_ws [] \<longrightarrow> n < length (ser [] (JArray xs)) \<longrightarrow>
      length ([] @ take n (ser [] (JArray xs))) < Suc n \<longrightarrow>
      cut_res (JArray xs) (parse_value (Suc n) ([] @ take n (ser [] (JArray xs))))"
    unfolding cut_fails_def by blast
  then have "cut_res (JArray xs) (parse_value (Suc n) (take n (ser [] (JArray xs))))"
    using assms(2) by (simp add: json_stringify_def del: ser.simps parse_value.simps)
  moreover have "length (take n (ser [] (JArray xs))) = n"
    using assms(2) by (simp add: json_stringify_def del: ser.simps)
  ultimately show ?thesis
    by (auto simp: json_parse_def json_stringify_def cut_res_def split: sum.splits simp del: ser.simps parse_value.simps)
qed

end
