(* ===== verification/Store.thy ===== *)
theory Store
  imports JsonCut
begin

text \<open>
  The record store of \<open>src/server.js\<close>: the file \<open>data.json\<close> next to the server and the
  two helpers \<open>readStudentData\<close> (lines 22--30) and \<open>writeStudentData\<close> (lines 32--39).
  The outside world is a record: the file's contents (\<open>None\<close> when \<open>readFileSync\<close>
  throws: the file is missing or unreadable) and the lines written to the console, as
  events. A write takes its outcome from the environment: it succeeds, fails before the
  file is opened (the file is unchanged), or fails after \<open>writeFileSync\<close> truncated the
  file and wrote a prefix of the text (a torn write, e.g. \<open>ENOSPC\<close>).
\<close>

datatype log_event =
    LogWriteError
  | LogSubmission "json option" "json option" "json option" "json option"
  | LogAdminData "json option"
  | LogListening nat
  | LogLoginHint

record world =
  data_file :: "string option"
  console :: "log_event list"

datatype write_outcome = WriteOk | WriteFailed | WriteTorn nat

definition DATA_FILE :: string where
  "DATA_FILE = ''data.json''"

text \<open>
  \<open>readStudentData\<close>: the parsed contents of the file; a missing or unreadable file and a
  text that \<open>JSON.parse\<close> rejects all give \<open>[]\<close>. A text that parses to a value other
  than an array is returned as it is.
\<close>

definition readStudentData :: "world \<Rightarrow> json" where
  "readStudentData w =
     (case data_file w of
        None \<Rightarrow> JArray []
      | Some txt \<Rightarrow> (case json_parse txt of None \<Rightarrow> JArray [] | Some v \<Rightarrow> v))"

text \<open>
  \<open>writeStudentData\<close>: \<open>fs.writeFileSync(DATA_FILE, JSON.stringify(data, null, 2))\<close>; an
  exception is caught and logged with \<open>console.error\<close>.
\<close>

definition writeStudentData :: "write_outcome \<Rightarrow> json \<Rightarrow> world \<Rightarrow> world" where
  "writeStudentData wo v w =
     (let txt = json_stringify v in
      case wo of
        WriteOk \<Rightarrow> w\<lparr>data_file := Some txt\<rparr>
      | WriteFailed \<Rightarrow> w\<lparr>console := console w @ [LogWriteError]\<rparr>
      | WriteTorn n \<Rightarrow> w\<lparr>data_file := Some (take n txt), console := console w @ [LogWriteError]\<rparr>)"

text \<open>
  The store invariant: no file yet, or a file that parses to an array and is exactly that
  array's pretty-printed text (what \<open>writeStudentData\<close> writes).
\<close>

definition store_inv :: "world \<Rightarrow> bool" where
  "store_inv w =
     (case data_file w of
        None \<Rightarrow> True
      | Some txt \<Rightarrow> (case json_parse txt of Some (JArray xs) \<Rightarrow> json_stringify (JArray xs) = txt | _ \<Rightarrow> False))"

text \<open>The records the store holds, as an abstract list.\<close>

definition records :: "world \<Rightarrow> json list" where
  "records w = (case readStudentData w of JArray xs \<Rightarrow> xs | _ \<Rightarrow> [])"

subsection \<open>Reading and writing\<close>

lemma readStudentData_console [simp]:
  "readStudentData (w\<lparr>console := c\<rparr>) = readStudentData w"
  by (simp add: readStudentData_def)

lemma store_inv_console [simp]: "store_inv (w\<lparr>console := c\<rparr>) = store_inv w"
  by (simp add: store_inv_def)

lemma records_console [simp]: "records (w\<lparr>console := c\<rparr>) = records w"
  by (simp add: records_def)

lemma readStudentData_wf: "wf_json (readStudentData w)"
  by (auto simp: readStudentData_def dest: json_parse_wf_lemma split: option.splits)

lemma read_after_write_ok:
  "wf_json v \<Longrightarrow> readStudentData (writeStudentData WriteOk v w) = jsonify v"
  by (simp add: readStudentData_def writeStudentData_def parse_stringify_wf)

lemma read_after_write_failed:
  "readStudentData (writeStudentData WriteFailed v w) = readStudentData w"
  by (simp add: writeStudentData_def)

lemma read_after_write_torn:
  "readStudentData (writeStudentData (WriteTorn n) v w) =
     (case json_parse (take n (json_stringify v)) of None \<Rightarrow> JArray [] | Some u \<Rightarrow> u)"
  by (simp add: readStudentData_def writeStudentData_def)

lemma console_write_ok [simp]: "console (writeStudentData WriteOk v w) = console w"
  by (simp add: writeStudentData_def)

lemma console_write_error:
  "wo \<noteq> WriteOk \<Longrightarrow> console (writeStudentData wo v w) = console w @ [LogWriteError]"
  by (cases wo) (simp_all add: writeStudentData_def)

lemma store_inv_read:
  "store_inv w \<Longrightarrow> readStudentData w = JArray (records w)"
  by (auto simp: store_inv_def readStudentData_def records_def
           split: option.splits json.splits)

lemma store_inv_write_ok:
  "list_all wf_json xs \<Longrightarrow> store_inv (writeStudentData WriteOk (JArray xs) w)"
  by (simp add: store_inv_def writeStudentData_def parse_stringify_wf)

lemma store_inv_write_failed:
  "store_inv w \<Longrightarrow> store_inv (writeStudentData WriteFailed v w)"
  by (simp add: writeStudentData_def)

lemma records_write_ok:
  "list_all wf_json xs \<Longrightarrow> records (writeStudentData WriteOk (JArray xs) w) = map jsonify xs"
  by (simp add: records_def read_after_write_ok)

text \<open>Under the invariant the records are exactly what a serialisation stands for: no
  infinite number is stored.\<close>

lemma store_inv_jsonify: "store_inv w \<Longrightarrow> map jsonify (records w) = records w"
proof -
  assume inv: "store_inv w"
  show ?thesis
  proof (cases "data_file w")
    case (Some contents)
    with inv obtain xs where p: "json_parse contents = Some (JArray xs)" and t: "json_stringify (JArray xs) = contents"
      by (auto simp: store_inv_def split: option.splits json.splits)
    have "json_parse (json_stringify (JArray xs)) = Some (jsonify (JArray xs))"
      using json_parse_wf_lemma [OF p] by (rule parse_stringify_wf)
    with p t have "map jsonify xs = xs" by simp
    with Some p show ?thesis by (simp add: records_def readStudentData_def)
  qed (simp add: records_def readStudentData_def)
qed

lemma records_wf: "list_all wf_json (records w)"
  using readStudentData_wf [of w] by (auto simp: records_def split: json.splits)

lemma records_write_failed: "records (writeStudentData WriteFailed v w) = records w"
  by (simp add: records_def read_after_write_failed)

lemma readStudentData_file:
  "data_file w = data_file w' \<Longrightarrow> readStudentData w = readStudentData w'"
  by (simp add: readStudentData_def)

lemma read_after_write_torn_array:
  "list_all wf_json xs \<Longrightarrow> n < length (json_stringify (JArray xs)) \<Longrightarrow>
   readStudentData (writeStudentData (WriteTorn n) (JArray xs) w) = JArray []"
  by (simp add: read_after_write_torn json_parse_cut_array)

lemma write_console: "\<exists>new. console (writeStudentData wo v w) = console w @ new"
  by (cases wo) (auto simp: writeStudentData_def)

end
