(* ===== verification/Console.thy ===== *)
theory Console
  imports Store
begin

text \<open>
  The text of the console lines of \<open>src/server.js\<close>. Four of them are template literals
  (lines 56, 67, 95) or constants (line 96); a substitution \<open>${v}\<close> applies ECMAScript's
  \<open>ToString\<close> to \<open>v\<close>, which can throw: an object that \<open>JSON.parse\<close> built with an own
  property named \<open>toString\<close> has a non-callable \<open>toString\<close>, and \<open>valueOf\<close> returns the
  object itself, so \<open>OrdinaryToPrimitive\<close> throws a \<open>TypeError\<close>. Arrays are converted by
  \<open>Array.prototype.join\<close> with separator \<open>,\<close>, \<open>null\<close> elements giving the empty text.
  \<open>log_line\<close> renders an event or gives the exception the template literal throws before
  \<open>console.log\<close> is called. Strings are UTF-8 bytes, so the emoji are their byte sequences.
\<close>

fun js_to_string :: "json \<Rightarrow> js_error + string"
  and js_join_elems :: "json list \<Rightarrow> js_error + string list" where
  "js_to_string JNull = Inr ''null''"
| "js_to_string (JBool b) = Inr (if b then ''true'' else ''false'')"
| "js_to_string (JNumber n) = Inr (num_to_string n)"
| "js_to_string (JString s) = Inr s"
| "js_to_string (JArray xs) =
     (case js_join_elems xs of Inl e \<Rightarrow> Inl e | Inr ss \<Rightarrow> Inr (join_with '','' ss))"
| "js_to_string (JObject ps) =
     (if map_of ps ''toString'' = None then Inr ''[object Object]'' else Inl TypeError)"
| "js_join_elems [] = Inr []"
| "js_join_elems (x # xs) =
     (case (if x = JNull then Inr [] else js_to_string x) of
        Inl e \<Rightarrow> Inl e
      | Inr s \<Rightarrow> (case js_join_elems xs of Inl e \<Rightarrow> Inl e | Inr ss \<Rightarrow> Inr (s # ss)))"

definition js_template_arg :: "json option \<Rightarrow> js_error + string" where
  "js_template_arg v = (case v of None \<Rightarrow> Inr ''undefined'' | Some x \<Rightarrow> js_to_string x)"

text \<open>A template literal's parts, evaluated from left to right; the first exception wins.\<close>

fun js_concat :: "(js_error + string) list \<Rightarrow> js_error + string" where
  "js_concat [] = Inr []"
| "js_concat (p # ps) =
     (case p of Inl e \<Rightarrow> Inl e | Inr s \<Rightarrow> (case js_concat ps of Inl e \<Rightarrow> Inl e | Inr t \<Rightarrow> Inr (s @ t)))"

definition log_line :: "log_event \<Rightarrow> js_error + string" where
  "log_line ev =
     (case ev of
        LogWriteError \<Rightarrow> Inr ''Error writing data file:''
      | LogSubmission n c s m \<Rightarrow>
          js_concat [Inr ([CHR 0xE2, CHR 0x9C, CHR 0x85] @ '' New Quiz Submission received: ''),
                     js_template_arg n, Inr '' (Course: '', js_template_arg c,
                     Inr '', Score: '', js_template_arg s, Inr ''/'', js_template_arg m, Inr '')'']
      | LogAdminData n \<Rightarrow>
          js_concat [Inr ([CHR 0xF0, CHR 0x9F, CHR 0x93, CHR 0xA1] @ '' Admin requested data. Returning ''),
                     js_template_arg n, Inr '' records.'']
      | LogListening p \<Rightarrow>
          js_concat [Inr ([CHR 0xF0, CHR 0x9F, CHR 0x9A, CHR 0x80] @ '' Server running on http://localhost:''),
                     js_template_arg (Some (JNumber (num_of_nat p)))]
      | LogLoginHint \<Rightarrow> Inr ''Use Username: admin, Password: password123 to login to the frontend.'')"

definition loggable :: "log_event \<Rightarrow> bool" where
  "loggable ev = (\<not> isl (log_line ev))"

subsection \<open>Lemmas\<close>

lemma js_concat_isl [simp]: "isl (js_concat ps) = list_ex isl ps"
  by (induction ps) (auto split: sum.split)

lemma js_to_string_object [simp]:
  "isl (js_to_string (JObject ps)) = (map_of ps ''toString'' \<noteq> None)"
  by simp

lemma js_template_arg_simps [simp]:
  "js_template_arg None = Inr ''undefined''"
  "js_template_arg (Some (JString s)) = Inr s"
  "js_template_arg (Some (JNumber n)) = Inr (num_to_string n)"
  "js_template_arg (Some JNull) = Inr ''null''"
  "js_template_arg (Some (JBool b)) = Inr (if b then ''true'' else ''false'')"
  by (simp_all add: js_template_arg_def)

lemma loggable_simps [simp]:
  "loggable LogWriteError"
  "loggable (LogListening p)"
  "loggable LogLoginHint"
  "loggable (LogSubmission n c s m) =
     (\<not> isl (js_template_arg n) \<and> \<not> isl (js_template_arg c) \<and>
      \<not> isl (js_template_arg s) \<and> \<not> isl (js_template_arg m))"
  "loggable (LogAdminData n) = (\<not> isl (js_template_arg n))"
  by (simp_all add: loggable_def log_line_def del: js_concat.simps)

lemma loggable_object_toString:
  "map_of ps ''toString'' \<noteq> None \<Longrightarrow> \<not> loggable (LogSubmission (Some (JObject ps)) c s m)"
  by (auto simp: js_template_arg_def)

end
