(* ===== verification/Handlers.thy ===== *)
theory Handlers
  imports Console
begin

text \<open>
  The three route handlers of \<open>src/server.js\<close>: quiz submission (lines 44--62), admin
  data retrieval (lines 65--70) and the mock admin login (lines 74--90). A handler takes
  the parsed request body (\<open>req.body\<close>, a JSON value), the outcome the environment gives
  to the file write, and the world, and returns the response and the new world. A
  \<open>res.json(x)\<close> response carries the value \<open>x\<close>; an exception thrown in a handler reaches
  Express's final handler, which answers with status 500 and an HTML error page. The
  template literals of the log lines (56, 67) may throw (\<open>Console.loggable\<close>); the
  submission's throws after the file has been written.
\<close>

datatype resp_body = JsonBody json | ErrorPage | NoBody

record response =
  status :: nat
  body :: resp_body

definition internal_error :: response where
  "internal_error = \<lparr>status = 500, body = ErrorPage\<rparr>"

text \<open>Reading a property: \<open>null.k\<close> throws; other values give the property or \<open>undefined\<close>.\<close>

definition js_member :: "json \<Rightarrow> string \<Rightarrow> js_error + json option" where
  "js_member v k = (if v = JNull then Inl TypeError else Inr (js_get v k))"

subsection \<open>Quiz submission\<close>

text \<open>The guard of line 48.\<close>

definition submission_valid :: "json \<Rightarrow> bool" where
  "submission_valid d \<longleftrightarrow>
     js_truthy (js_get d ''name'') \<and> js_truthy (js_get d ''email'') \<and>
     js_truthy (js_get d ''course'') \<and> \<not> js_is_undefined (js_get d ''score'')"

definition submit_ack :: "json \<Rightarrow> nat \<Rightarrow> json" where
  "submit_ack d n =
     JObject [(''message'', JString ''Quiz submitted and data saved successfully!''),
              (''data'', JObject ((''id'', JNumber (num_of_nat n)) #
                                  js_prop ''name'' (js_get d ''name'') @
                                  js_prop ''course'' (js_get d ''course'')))]"

definition submit_event :: "json \<Rightarrow> log_event" where
  "submit_event d =
     LogSubmission (js_get d ''name'') (js_get d ''course'') (js_get d ''score'') (js_get d ''maxScore'')"

definition quiz_submit :: "write_outcome \<Rightarrow> json \<Rightarrow> world \<Rightarrow> response \<times> world" where
  "quiz_submit wo d w =
     (if \<not> submission_valid d then
        (\<lparr>status = 400, body = JsonBody (JObject
            [(''message'', JString ''Missing required student data for submission.'')])\<rparr>, w)
      else
        (case js_push (readStudentData w) d of
           Inl _ \<Rightarrow> (internal_error, w)
         | Inr allData \<Rightarrow>
             (let w1 = writeStudentData wo (JArray allData) w
              in if loggable (submit_event d)
                 then (\<lparr>status = 201, body = JsonBody (submit_ack d (length allData))\<rparr>,
                       w1\<lparr>console := console w1 @ [submit_event d]\<rparr>)
                 else (internal_error, w1))))"

subsection \<open>Admin data retrieval\<close>

definition admin_data :: "world \<Rightarrow> response \<times> world" where
  "admin_data w =
     (let allData = readStudentData w in
      case js_member allData ''length'' of
        Inl _ \<Rightarrow> (internal_error, w)
      | Inr n \<Rightarrow>
          if loggable (LogAdminData n)
          then (\<lparr>status = 200, body = JsonBody (JObject [(''students'', allData)])\<rparr>,
                w\<lparr>console := console w @ [LogAdminData n]\<rparr>)
          else (internal_error, w))"

subsection \<open>Mock admin login\<close>

definition login_ok :: json where
  "login_ok = JObject [(''success'', JBool True), (''token'', JString ''mock-auth-token-123''),
                       (''message'', JString ''Login successful'')]"

definition login_failed :: json where
  "login_failed = JObject [(''success'', JBool False), (''message'', JString ''Invalid credentials'')]"

definition admin_login :: "json \<Rightarrow> response" where
  "admin_login b =
     (if js_get b ''username'' = Some (JString ''admin'') \<and>
         js_get b ''password'' = Some (JString ''password123'')
      then \<lparr>status = 200, body = JsonBody login_ok\<rparr>
      else \<lparr>status = 401, body = JsonBody login_failed\<rparr>)"

subsection \<open>Handler lemmas\<close>

lemma js_push_array [simp]:
  "length xs < 4294967295 \<Longrightarrow> js_push (JArray xs) x = Inr (xs @ [x])"
  by (simp add: js_push_def)

lemma js_push_non_array:
  "(\<forall>xs. a \<noteq> JArray xs) \<Longrightarrow> js_push a x = Inl TypeError"
  by (cases a) (simp_all add: js_push_def)

lemma quiz_submit_rejected [handler_simps]:
  "\<not> submission_valid d \<Longrightarrow>
   quiz_submit wo d w = (\<lparr>status = 400, body = JsonBody (JObject
       [(''message'', JString ''Missing required student data for submission.'')])\<rparr>, w)"
  by (simp add: quiz_submit_def)

lemma quiz_submit_pushed:
  assumes "submission_valid d" and "readStudentData w = JArray xs" and "length xs < 4294967295"
  shows "quiz_submit wo d w =
           (let w1 = writeStudentData wo (JArray (xs @ [d])) w in
            if loggable (submit_event d)
            then (\<lparr>status = 201, body = JsonBody (submit_ack d (Suc (length xs)))\<rparr>,
                  w1\<lparr>console := console w1 @ [submit_event d]\<rparr>)
            else (internal_error, w1))"
  using assms by (simp add: quiz_submit_def Let_def)

lemma quiz_submit_accepted [handler_simps]:
  assumes "submission_valid d" and "readStudentData w = JArray xs" and "length xs < 4294967295"
    and "loggable (submit_event d)"
  shows "quiz_submit wo d w =
           (\<lparr>status = 201, body = JsonBody (submit_ack d (Suc (length xs)))\<rparr>,
            let w1 = writeStudentData wo (JArray (xs @ [d])) w in
            w1\<lparr>console := console w1 @ [submit_event d]\<rparr>)"
  using assms by (simp add: quiz_submit_pushed Let_def)

lemma quiz_submit_log_throws:
  assumes "submission_valid d" and "readStudentData w = JArray xs" and "length xs < 4294967295"
    and "\<not> loggable (submit_event d)"
  shows "quiz_submit wo d w = (internal_error, writeStudentData wo (JArray (xs @ [d])) w)"
  using assms by (simp add: quiz_submit_pushed Let_def)

lemma quiz_submit_store_full:
  "submission_valid d \<Longrightarrow> readStudentData w = JArray xs \<Longrightarrow> \<not> length xs < 4294967295 \<Longrightarrow>
   quiz_submit wo d w = (internal_error, w)"
  by (simp add: quiz_submit_def js_push_def)

lemma quiz_submit_not_array:
  "submission_valid d \<Longrightarrow> (\<forall>xs. readStudentData w \<noteq> JArray xs) \<Longrightarrow>
   quiz_submit wo d w = (internal_error, w)"
  by (simp add: quiz_submit_def js_push_non_array)

lemma quiz_submit_records [handler_simps]:
  assumes "submission_valid d" and "wf_json d" and "store_inv w"
    and "length (records w) < 4294967295"
  shows "records (snd (quiz_submit WriteOk d w)) = records w @ [jsonify d]"
    and "store_inv (snd (quiz_submit WriteOk d w))"
proof -
  have rd: "readStudentData w = JArray (records w)"
    using assms(3) by (rule store_inv_read)
  have wf: "list_all wf_json (records w @ [d])"
    using records_wf [of w] assms(2) by simp
  have "map jsonify (records w @ [d]) = records w @ [jsonify d]"
    using store_inv_jsonify [OF assms(3)] by simp
  then show "records (snd (quiz_submit WriteOk d w)) = records w @ [jsonify d]"
    using assms(1,4) rd wf by (simp add: quiz_submit_pushed records_write_ok Let_def del: map_append)
  show "store_inv (snd (quiz_submit WriteOk d w))"
    using assms(1,4) rd wf by (simp add: quiz_submit_pushed store_inv_write_ok Let_def)
qed

lemma quiz_submit_inv:
  assumes "store_inv w" and "wo = WriteOk \<or> wo = WriteFailed" and "wf_json d"
  shows "store_inv (snd (quiz_submit wo d w))"
proof (cases "submission_valid d \<and> length (records w) < 4294967295")
  case True
  have rd: "readStudentData w = JArray (records w)"
    using assms(1) by (rule store_inv_read)
  from assms(2) show ?thesis
  proof
    assume "wo = WriteOk"
    with True assms(1,3) show ?thesis by (simp add: quiz_submit_records)
  next
    assume "wo = WriteFailed"
    with True rd assms(1) show ?thesis
      by (simp add: quiz_submit_pushed store_inv_write_failed Let_def)
  qed
next
  case False
  have "quiz_submit wo d w = (internal_error, w)" if "submission_valid d"
    using that False store_inv_read [OF assms(1)] by (simp add: quiz_submit_store_full)
  with assms(1) show ?thesis
    by (cases "submission_valid d") (simp_all add: quiz_submit_rejected)
qed

lemma admin_data_ok [handler_simps]:
  "readStudentData w \<noteq> JNull \<Longrightarrow> loggable (LogAdminData (js_get (readStudentData w) ''length'')) \<Longrightarrow>
   admin_data w = (\<lparr>status = 200, body = JsonBody (JObject [(''students'', readStudentData w)])\<rparr>,
                   w\<lparr>console := console w @ [LogAdminData (js_get (readStudentData w) ''length'')]\<rparr>)"
  by (simp add: admin_data_def js_member_def Let_def)

lemma admin_data_log_throws:
  "readStudentData w \<noteq> JNull \<Longrightarrow> \<not> loggable (LogAdminData (js_get (readStudentData w) ''length'')) \<Longrightarrow>
   admin_data w = (internal_error, w)"
  by (simp add: admin_data_def js_member_def Let_def)

lemma admin_data_array:
  "readStudentData w = JArray xs \<Longrightarrow>
   admin_data w = (\<lparr>status = 200, body = JsonBody (JObject [(''students'', JArray xs)])\<rparr>,
                   w\<lparr>console := console w @ [LogAdminData (Some (JNumber (num_of_nat (length xs))))]\<rparr>)"
  by (simp add: admin_data_def js_member_def js_get_def)

lemma admin_data_null:
  "readStudentData w = JNull \<Longrightarrow> admin_data w = (internal_error, w)"
  by (simp add: admin_data_def js_member_def)

lemma admin_data_world:
  "snd (admin_data w) = w \<or> snd (admin_data w) = w\<lparr>console := console w @ [LogAdminData (js_get (readStudentData w) ''length'')]\<rparr>"
  by (simp add: admin_data_def js_member_def Let_def)

lemma admin_data_read [simp]: "readStudentData (snd (admin_data w)) = readStudentData w"
  using admin_data_world [of w] by auto

lemma admin_data_records [simp]: "records (snd (admin_data w)) = records w"
  by (simp add: records_def)

lemma admin_data_inv: "store_inv w \<Longrightarrow> store_inv (snd (admin_data w))"
  using admin_data_world [of w] by auto

lemma quiz_submit_records_cases:
  assumes "store_inv w" and "wo = WriteOk \<or> wo = WriteFailed" and "wf_json d"
  shows "records (snd (quiz_submit wo d w)) =
           (if submission_valid d \<and> length (records w) < 4294967295 \<and> wo = WriteOk
            then records w @ [jsonify d] else records w)"
proof (cases "submission_valid d \<and> length (records w) < 4294967295")
  case True
  have rd: "readStudentData w = JArray (records w)"
    using assms(1) by (rule store_inv_read)
  from assms(2) show ?thesis
  proof
    assume ok: "wo = WriteOk"
    have eq: "records (snd (quiz_submit WriteOk d w)) = records w @ [jsonify d]"
      using True assms(1,3) by (intro quiz_submit_records) simp_all
    with ok True show ?thesis by simp
  next
    assume "wo = WriteFailed"
    with True rd show ?thesis
      by (simp add: quiz_submit_pushed records_write_failed Let_def)
  qed
next
  case False
  have "quiz_submit wo d w = (internal_error, w)" if "submission_valid d"
    using that False store_inv_read [OF assms(1)] by (simp add: quiz_submit_store_full)
  with False show ?thesis
    by (cases "submission_valid d") (simp_all add: quiz_submit_rejected)
qed

subsection \<open>What a response depends on\<close>

lemma quiz_submit_resp_outcome: "fst (quiz_submit wo d w) = fst (quiz_submit wo' d w)"
  by (simp add: quiz_submit_def Let_def split: sum.splits)

lemma quiz_submit_resp_file:
  "data_file w = data_file w' \<Longrightarrow> fst (quiz_submit wo d w) = fst (quiz_submit wo d w')"
  by (simp add: quiz_submit_def Let_def readStudentData_file [of w w'] split: sum.splits)

lemma admin_data_resp_file:
  "data_file w = data_file w' \<Longrightarrow> fst (admin_data w) = fst (admin_data w')"
  by (simp add: admin_data_def Let_def readStudentData_file [of w w'] split: sum.splits)

lemma admin_data_file [simp]: "data_file (snd (admin_data w)) = data_file w"
  by (simp add: admin_data_def Let_def split: sum.splits)

lemma js_push_length: "js_push a x = Inr ys \<Longrightarrow> 1 \<le> length ys \<and> length ys \<le> 4294967295"
  by (auto simp: js_push_def split: json.splits if_splits)

lemma quiz_submit_console:
  "\<exists>new. console (snd (quiz_submit wo d w)) = console w @ new \<and> list_all loggable new"
  by (cases wo) (auto simp: quiz_submit_def writeStudentData_def Let_def split: sum.splits)

lemma admin_data_console:
  "\<exists>new. console (snd (admin_data w)) = console w @ new \<and> list_all loggable new"
  by (auto simp: admin_data_def Let_def split: sum.splits)

end
