(* ===== verification/Server.thy ===== *)
theory Server
  imports Handlers
begin

text \<open>
  The HTTP surface of \<open>src/server.js\<close>: the middleware stack (\<open>cors()\<close>, line 12, then
  \<open>bodyParser.json()\<close>, line 15), the three routes (lines 44, 65, 74) and \<open>app.listen\<close>
  (lines 94--97). A request is its method, its path (with query string) and, when it
  has a body of content type \<open>application/json\<close>, the body text. The server handles one
  request at a time to completion: every handler is synchronous, and \<open>readFileSync\<close> and
  \<open>writeFileSync\<close> block the single Node.js thread, so a request is one step of the world.
\<close>

datatype http_method = GET | HEAD | POST | PUT | DELETE | PATCH | OPTIONS

record request =
  req_method :: http_method
  req_path :: string
  req_body :: "string option"

definition PORT :: nat where
  "PORT = 3000"

subsection \<open>Body parser\<close>

text \<open>
  \<open>bodyParser.json()\<close> with its defaults (body-parser 1.x): no JSON body gives \<open>{}\<close>; a
  body over the 100kb limit is refused with 413; an empty body gives \<open>{}\<close>; in strict mode
  the first non-blank character must be \<open>{\<close> or \<open>[\<close>; otherwise the text goes through
  \<open>JSON.parse\<close>, and a failure is a 400 error passed to Express's final handler.
\<close>

definition json_body_limit :: nat where
  "json_body_limit = 102400"

definition bad_request :: response where
  "bad_request = \<lparr>status = 400, body = ErrorPage\<rparr>"

definition body_parser_json :: "string option \<Rightarrow> response + json" where
  "body_parser_json b =
     (case b of
        None \<Rightarrow> Inr (JObject [])
      | Some txt \<Rightarrow>
          if json_body_limit < length txt then Inl \<lparr>status = 413, body = ErrorPage\<rparr>
          else if txt = [] then Inr (JObject [])
          else (case skip_ws txt of
                  c # _ \<Rightarrow>
                    if c = CHR ''{'' \<or> c = CHR ''['' then
                      (case json_parse txt of Some v \<Rightarrow> Inr v | None \<Rightarrow> Inl bad_request)
                    else Inl bad_request
                | [] \<Rightarrow> Inl bad_request))"

subsection \<open>Routing\<close>

text \<open>
  Express compiles a route path \<open>p\<close> to \<open>^p\/?$\<close> with the case-insensitive flag and
  matches it against the path without its query string.
\<close>

definition lower_char :: "char \<Rightarrow> char" where
  "lower_char c =
     (if 65 \<le> (of_char c :: nat) \<and> (of_char c :: nat) \<le> 90 then char_of (of_char c + (32 :: nat))
      else c)"

definition path_matches :: "string \<Rightarrow> string \<Rightarrow> bool" where
  "path_matches route p =
     (let q = map lower_char (takeWhile (\<lambda>c. c \<noteq> CHR ''?'') p) in q = route \<or> q = route @ ''/'')"

definition not_found :: response where
  "not_found = \<lparr>status = 404, body = ErrorPage\<rparr>"

definition route :: "write_outcome \<Rightarrow> http_method \<Rightarrow> string \<Rightarrow> json \<Rightarrow> world \<Rightarrow> response \<times> world" where
  "route wo m p b w =
     (if m = POST \<and> path_matches ''/api/quiz/submit'' p then quiz_submit wo b w
      else if (m = GET \<or> m = HEAD) \<and> path_matches ''/api/admin/data'' p then admin_data w
      else if m = POST \<and> path_matches ''/api/admin/login'' p then (admin_login b, w)
      else (not_found, w))"

subsection \<open>The middleware stack\<close>

text \<open>
  A middleware sets headers on \<open>res\<close> and either ends the response or calls \<open>next()\<close>.
  Express's \<open>init\<close> middleware sets \<open>X-Powered-By: Express\<close>. \<open>cors()\<close> with its default
  options (origin \<open>*\<close>, \<open>preflightContinue: false\<close>, \<open>optionsSuccessStatus: 204\<close>) sets
  \<open>Access-Control-Allow-Origin: *\<close> on every request; on a preflight (\<open>OPTIONS\<close>) it also
  sets the allowed methods, \<open>Vary: Access-Control-Request-Headers\<close> and
  \<open>Content-Length: 0\<close> and ends the response with 204 instead of calling \<open>next()\<close>. (A
  preflight's \<open>Access-Control-Request-Headers\<close>, which \<open>cors()\<close> reflects, is not part of the
  request model.)
\<close>

type_synonym headers = "(string \<times> string) list"

definition express_init :: headers where
  "express_init = [(''X-Powered-By'', ''Express'')]"

definition cors_mw :: "http_method \<Rightarrow> headers \<Rightarrow> headers \<times> response option" where
  "cors_mw m hs =
     (let hs1 = hs @ [(''Access-Control-Allow-Origin'', ''*'')] in
      if m = OPTIONS then
        (hs1 @ [(''Access-Control-Allow-Methods'', ''GET,HEAD,PUT,PATCH,POST,DELETE''),
                (''Vary'', ''Access-Control-Request-Headers''), (''Content-Length'', ''0'')],
         Some \<lparr>status = 204, body = NoBody\<rparr>)
      else (hs1, None))"

text \<open>
  One request through the stack of lines 12--90: \<open>init\<close>, \<open>cors()\<close>, the body parser (an
  error goes to the final handler), then the routes. The result is the headers the
  middlewares set, the response and the new world.
\<close>

definition app_stack :: "write_outcome \<Rightarrow> request \<Rightarrow> world \<Rightarrow> headers \<times> response \<times> world" where
  "app_stack wo rq w =
     (case cors_mw (req_method rq) express_init of
        (hs, Some r) \<Rightarrow> (hs, r, w)
      | (hs, None) \<Rightarrow>
          (case body_parser_json (req_body rq) of
             Inl err \<Rightarrow> (hs, err, w)
           | Inr b \<Rightarrow> (let (r, w') = route wo (req_method rq) (req_path rq) b w in (hs, r, w'))))"

text \<open>The response and the new world. For a \<open>HEAD\<close> request Node's HTTP layer sends the
  headers of the response without its body.\<close>

definition dispatch :: "write_outcome \<Rightarrow> request \<Rightarrow> world \<Rightarrow> response \<times> world" where
  "dispatch wo rq w = snd (app_stack wo rq w)"

definition handle_request :: "write_outcome \<Rightarrow> request \<Rightarrow> world \<Rightarrow> response \<times> world" where
  "handle_request wo rq w =
     (let (resp, w') = dispatch wo rq w
      in (if req_method rq = HEAD then resp\<lparr>body := NoBody\<rparr> else resp, w'))"

definition app_listen :: "world \<Rightarrow> world" where
  "app_listen w = w\<lparr>console := console w @ [LogListening PORT, LogLoginHint]\<rparr>"

subsection \<open>Runs\<close>

text \<open>A run: the server handles the requests in order, each write with its outcome.\<close>

fun serve :: "(write_outcome \<times> request) list \<Rightarrow> world \<Rightarrow> response list \<times> world" where
  "serve [] w = ([], w)"
| "serve ((wo, rq) # rs) w =
     (let (r, w1) = handle_request wo rq w; (rs', w2) = serve rs w1 in (r # rs', w2))"

definition init_world :: world where
  "init_world = \<lparr>data_file = None, console = []\<rparr>"

text \<open>
  The worlds a server reaches from a fresh start with no data file, when the environment
  gives every write an outcome allowed by \<open>env\<close>.
\<close>

inductive reachable :: "(write_outcome \<Rightarrow> bool) \<Rightarrow> world \<Rightarrow> bool" for env where
  start: "reachable env (app_listen init_world)"
| step: "reachable env w \<Longrightarrow> env wo \<Longrightarrow> handle_request wo rq w = (resp, w') \<Longrightarrow> reachable env w'"

definition no_torn_write :: "write_outcome \<Rightarrow> bool" where
  "no_torn_write wo = (case wo of WriteTorn _ \<Rightarrow> False | _ \<Rightarrow> True)"

text \<open>The submissions a run must store: the valid bodies of the submission requests, in order.\<close>

definition submitted_record :: "request \<Rightarrow> json option" where
  "submitted_record rq =
     (if req_method rq = POST \<and> path_matches ''/api/quiz/submit'' (req_path rq) then
        (case body_parser_json (req_body rq) of
           Inr b \<Rightarrow> if submission_valid b then Some b else None
         | Inl _ \<Rightarrow> None)
      else None)"

definition accepted :: "request list \<Rightarrow> json list" where
  "accepted rqs = List.map_filter submitted_record rqs"

text \<open>
  What the store can hold: the serialisation of a submission object that passed the guard of
  line 48. It is an object without infinite numbers whose \<open>name\<close>, \<open>email\<close> and \<open>course\<close>
  are truthy or \<open>null\<close> (an infinite number, which is truthy, is written as \<open>null\<close>) and which
  has a \<open>score\<close>.
\<close>

definition stored_field_ok :: "json option \<Rightarrow> bool" where
  "stored_field_ok x \<longleftrightarrow> js_truthy x \<or> x = Some JNull"

definition stored_record_ok :: "json \<Rightarrow> bool" where
  "stored_record_ok d =
     (case d of
        JObject _ \<Rightarrow>
          jsonify d = d \<and> stored_field_ok (js_get d ''name'') \<and> stored_field_ok (js_get d ''email'') \<and>
          stored_field_ok (js_get d ''course'') \<and> js_get d ''score'' \<noteq> None
      | _ \<Rightarrow> False)"

subsection \<open>The store invariant over requests\<close>

lemma dispatch_eq:
  "dispatch wo rq w =
     (if req_method rq = OPTIONS then (\<lparr>status = 204, body = NoBody\<rparr>, w)
      else
        (case body_parser_json (req_body rq) of
           Inl err \<Rightarrow> (err, w)
         | Inr b \<Rightarrow> route wo (req_method rq) (req_path rq) b w))"
  by (simp add: dispatch_def app_stack_def cors_mw_def Let_def split: sum.split prod.split)

lemma body_parser_wf: "body_parser_json b = Inr v \<Longrightarrow> wf_json v"
  by (auto simp: body_parser_json_def dest: json_parse_wf_lemma
           split: option.splits if_splits list.splits)

lemma body_parser_container:
  "body_parser_json b = Inr v \<Longrightarrow> (\<exists>ps. v = JObject ps) \<or> (\<exists>xs. v = JArray xs)"
  by (auto simp: body_parser_json_def dest: json_parse_container
           split: option.splits if_splits list.splits)

lemma route_records:
  assumes "store_inv w" and "no_torn_write wo" and "wf_json b"
  shows "records (snd (route wo m p b w)) =
           (if m = POST \<and> path_matches ''/api/quiz/submit'' p \<and> submission_valid b \<and>
               length (records w) < 4294967295 \<and> wo = WriteOk
            then records w @ [jsonify b] else records w)"
proof -
  have "wo = WriteOk \<or> wo = WriteFailed"
    using assms(2) by (cases wo) (simp_all add: no_torn_write_def)
  with assms(1,3) show ?thesis
    by (simp add: route_def quiz_submit_records_cases)
qed

lemma route_inv:
  assumes "store_inv w" and "no_torn_write wo" and "wf_json b"
  shows "store_inv (snd (route wo m p b w))"
proof -
  have "wo = WriteOk \<or> wo = WriteFailed"
    using assms(2) by (cases wo) (simp_all add: no_torn_write_def)
  with assms(1,3) show ?thesis
    by (simp add: route_def quiz_submit_inv admin_data_inv)
qed

lemma handle_request_cases:
  "snd (handle_request wo rq w) =
     (if req_method rq = OPTIONS then w
      else case body_parser_json (req_body rq) of
             Inl _ \<Rightarrow> w
           | Inr b \<Rightarrow> snd (route wo (req_method rq) (req_path rq) b w))"
  by (simp add: handle_request_def dispatch_eq split: sum.splits prod.splits)

lemma handle_request_inv:
  "store_inv w \<Longrightarrow> no_torn_write wo \<Longrightarrow> store_inv (snd (handle_request wo rq w))"
  by (auto simp: handle_request_cases route_inv dest: body_parser_wf split: sum.splits)


lemma submission_valid_array [simp]: "\<not> submission_valid (JArray xs)"
  by (simp add: submission_valid_def js_get_def is_array_index_def is_digit_def)

lemma js_get_jsonify_object: "js_get (jsonify (JObject ps)) k = map_option jsonify (js_get (JObject ps) k)"
  by (simp add: js_get_def map_of_map)

lemma stored_field_jsonify: "js_truthy x \<Longrightarrow> stored_field_ok (map_option jsonify x)"
proof (cases x)
  case (Some v)
  then show "js_truthy x \<Longrightarrow> stored_field_ok (map_option jsonify x)"
  proof (cases v)
    case (JNumber n)
    with Some show "js_truthy x \<Longrightarrow> ?thesis" by (cases n) (simp_all add: stored_field_ok_def num_finite_def)
  qed (simp_all add: stored_field_ok_def)
qed simp

lemma stored_record_jsonify:
  assumes "submission_valid (JObject ps)"
  shows "stored_record_ok (jsonify (JObject ps))"
proof -
  define qs where "qs = map (\<lambda>(k, v). (k, jsonify v)) ps"
  have q: "jsonify (JObject ps) = JObject qs" by (simp add: qs_def)
  have g: "js_get (JObject qs) k = map_option jsonify (js_get (JObject ps) k)" for k
    using js_get_jsonify_object [of ps k] by (simp only: q)
  have i: "jsonify (JObject qs) = JObject qs" using jsonify_idem [of "JObject ps"] by (simp only: q)
  from assms show ?thesis unfolding q stored_record_ok_def
    by (simp only: json.case g i) (simp add: submission_valid_def stored_field_jsonify js_is_undefined_def)
qed

lemma body_parser_record_ok:
  "body_parser_json b = Inr v \<Longrightarrow> submission_valid v \<Longrightarrow> stored_record_ok (jsonify v)"
  by (auto simp del: jsonify.simps dest: body_parser_container intro: stored_record_jsonify)

lemma handle_request_records:
  assumes "store_inv w" and "no_torn_write wo"
  shows "records (snd (handle_request wo rq w)) =
           (case submitted_record rq of
              Some d \<Rightarrow> if length (records w) < 4294967295 \<and> wo = WriteOk then records w @ [jsonify d] else records w
            | None \<Rightarrow> records w)"
  using assms
  by (auto simp: handle_request_cases submitted_record_def route_records
           dest: body_parser_wf split: sum.splits)

lemma handle_request_records_ok:
  "store_inv w \<Longrightarrow> no_torn_write wo \<Longrightarrow> list_all stored_record_ok (records w) \<Longrightarrow>
   list_all stored_record_ok (records (snd (handle_request wo rq w)))"
  by (auto simp: handle_request_records submitted_record_def body_parser_record_ok
           split: option.splits sum.splits if_splits)

text \<open>
  C4. In every world a server reaches from a fresh start, whatever the requests, as long
  as no write is torn (a write succeeds, or fails before touching the file): the data
  file is absent or holds the pretty-printed text of a JSON array, and every element of
  that array is an object that passed the submission guard of line 48.
\<close>

theorem reachable_inv:
  "reachable no_torn_write w \<Longrightarrow> store_inv w \<and> list_all stored_record_ok (records w)"
proof (induction rule: reachable.induct)
  case start
  then show ?case
    by (simp add: app_listen_def init_world_def store_inv_def records_def readStudentData_def)
next
  case (step w wo rq resp w')
  then have "w' = snd (handle_request wo rq w)" by simp
  with step show ?case by (simp add: handle_request_inv handle_request_records_ok)
qed

lemma serve_Cons_split:
  "serve ((wo, rq) # rs) w =
     (fst (handle_request wo rq w) # fst (serve rs (snd (handle_request wo rq w))),
      snd (serve rs (snd (handle_request wo rq w))))"
  by (simp split: prod.split)

lemma serve_records:
  "store_inv w \<Longrightarrow> length (records w) + length (accepted rqs) \<le> 4294967295 \<Longrightarrow>
   records (snd (serve (map (Pair WriteOk) rqs) w)) = records w @ map jsonify (accepted rqs)"
proof (induction rqs arbitrary: w)
  case Nil
  then show ?case by (simp add: accepted_def)
next
  case (Cons rq rqs)
  let ?w1 = "snd (handle_request WriteOk rq w)"
  have nt: "no_torn_write WriteOk" by (simp add: no_torn_write_def)
  have acc: "accepted (rq # rqs) =
      (case submitted_record rq of None \<Rightarrow> [] | Some d \<Rightarrow> [d]) @ accepted rqs"
    by (simp add: accepted_def map_filter_simps split: option.splits)
  have r1: "records ?w1 = records w @ (case submitted_record rq of None \<Rightarrow> [] | Some d \<Rightarrow> [jsonify d])"
    using Cons.prems acc by (auto simp: handle_request_records nt split: option.splits)
  have "records (snd (serve (map (Pair WriteOk) rqs) ?w1)) = records ?w1 @ map jsonify (accepted rqs)"
    using Cons.prems acc r1 by (intro Cons.IH handle_request_inv nt) (auto split: option.splits)
  with r1 acc show ?case by (simp add: serve_Cons_split del: serve.simps split: option.splits)
qed

subsection \<open>Runs and responses\<close>

lemma serve_inv:
  "store_inv w \<Longrightarrow> list_all no_torn_write (map fst rs) \<Longrightarrow> store_inv (snd (serve rs w))"
proof (induction rs arbitrary: w)
  case Nil
  then show ?case by simp
next
  case (Cons r rs)
  then show ?case
    by (cases r) (simp add: serve_Cons_split handle_request_inv del: serve.simps)
qed

lemma path_matches_self: "path_matches ''/api/admin/data'' ''/api/admin/data''"
  by code_simp

lemma handle_request_split:
  "handle_request wo rq w =
     (if req_method rq = OPTIONS then (\<lparr>status = 204, body = NoBody\<rparr>, w)
      else case body_parser_json (req_body rq) of
             Inl err \<Rightarrow> (if req_method rq = HEAD then err\<lparr>body := NoBody\<rparr> else err, w)
           | Inr b \<Rightarrow>
               (if req_method rq = HEAD then (fst (route wo (req_method rq) (req_path rq) b w))\<lparr>body := NoBody\<rparr>
                else fst (route wo (req_method rq) (req_path rq) b w),
                snd (route wo (req_method rq) (req_path rq) b w)))"
  by (simp add: handle_request_def dispatch_eq split: sum.split prod.split)

lemma route_resp_file:
  "data_file w = data_file w' \<Longrightarrow> fst (route wo m p b w) = fst (route wo m p b w')"
  using quiz_submit_resp_file [of w w' wo b] admin_data_resp_file [of w w']
  by (simp add: route_def)

lemma handle_request_resp_file:
  "data_file w = data_file w' \<Longrightarrow> fst (handle_request wo rq w) = fst (handle_request wo rq w')"
  by (simp add: handle_request_split route_resp_file [of w w'] split: sum.split)

text \<open>
  C9. The response to any request does not depend on the outcome of the file write:
  \<open>writeStudentData\<close> swallows its errors, so a failed or torn write still answers 201.
\<close>

theorem handle_request_resp_outcome:
  "fst (handle_request wo rq w) = fst (handle_request wo' rq w)"
  using quiz_submit_resp_outcome [of wo _ w wo']
  by (simp add: handle_request_split route_def split: sum.split)

lemma handle_request_GET_file:
  "req_method rq = GET \<Longrightarrow> data_file (snd (handle_request wo rq w)) = data_file w"
  by (simp add: handle_request_split route_def split: sum.split)

lemma app_listen_simps [simp]:
  "data_file (app_listen w) = data_file w" "store_inv (app_listen w) = store_inv w"
  "records (app_listen w) = records w" "readStudentData (app_listen w) = readStudentData w"
  by (simp_all add: app_listen_def)

lemma init_world_simps [simp]:
  "store_inv init_world" "readStudentData init_world = JArray []" "records init_world = []"
  by (simp_all add: init_world_def store_inv_def readStudentData_def records_def)

lemma get_data_resp:
  assumes "req_method g = GET" and "path_matches ''/api/admin/data'' (req_path g)"
    and "body_parser_json (req_body g) = Inr b" and "readStudentData w = JArray xs"
  shows "fst (handle_request wo g w) =
           \<lparr>status = 200, body = JsonBody (JObject [(''students'', JArray xs)])\<rparr>"
  using assms by (simp add: handle_request_split route_def admin_data_array)

lemma login_not_submit: "path_matches ''/api/admin/login'' p \<Longrightarrow> \<not> path_matches ''/api/quiz/submit'' p"
  by (auto simp: path_matches_def Let_def)

lemma login_not_data: "path_matches ''/api/admin/login'' p \<Longrightarrow> \<not> path_matches ''/api/admin/data'' p"
  by (auto simp: path_matches_def Let_def)

lemma body_parser_parse_error:
  "txt \<noteq> [] \<Longrightarrow> length txt \<le> json_body_limit \<Longrightarrow> json_parse txt = None \<Longrightarrow>
   body_parser_json (Some txt) = Inl bad_request"
  by (simp add: body_parser_json_def split: list.split)

lemma route_unknown:
  "\<not> path_matches ''/api/quiz/submit'' p \<Longrightarrow> \<not> path_matches ''/api/admin/data'' p \<Longrightarrow>
   \<not> path_matches ''/api/admin/login'' p \<Longrightarrow> route wo m p b w = (not_found, w)"
  by (simp add: route_def)

lemma handle_request_console:
  "\<exists>new. console (snd (handle_request wo rq w)) = console w @ new \<and> list_all loggable new"
  using quiz_submit_console [of wo _ w] admin_data_console [of w]
  by (auto simp: handle_request_split route_def split: sum.splits)

end
