(* ===== verification/Recovery.thy ===== *)
theory Recovery
  imports Server
begin

text \<open>
  What the store can become when writes may be torn, and how the server recovers. With
  every write outcome allowed, the data file of a reachable world is absent, unreadable
  (a torn write never leaves a text \<open>JSON.parse\<close> accepts, by \<open>json_parse_cut_array\<close>), or
  the invariant text \<open>store_inv\<close>; one valid submission whose write succeeds always
  brings the store back to the invariant. A file that parses to a value other than an
  array, which no run of this server writes, can never be repaired by any request.
\<close>

definition weak_store_inv :: "world \<Rightarrow> bool" where
  "weak_store_inv w =
     (case data_file w of None \<Rightarrow> True | Some txt \<Rightarrow> json_parse txt = None \<or> store_inv w)"

subsection \<open>The weak invariant\<close>

lemma weak_store_inv_console [simp]: "weak_store_inv (w\<lparr>console := c\<rparr>) = weak_store_inv w"
  by (simp add: weak_store_inv_def split: option.split)

lemma weak_store_inv_read: "weak_store_inv w \<Longrightarrow> \<exists>xs. readStudentData w = JArray xs"
  by (auto simp: weak_store_inv_def readStudentData_def store_inv_read split: option.splits dest: store_inv_read)

lemma weak_store_inv_write:
  assumes "weak_store_inv w" and "list_all wf_json xs"
  shows "weak_store_inv (writeStudentData wo (JArray xs) w)"
proof (cases wo)
  case WriteOk
  then show ?thesis using store_inv_write_ok [OF assms(2), of w]
    by (simp add: weak_store_inv_def writeStudentData_def store_inv_def)
next
  case WriteFailed
  then show ?thesis using assms(1) by (simp add: writeStudentData_def)
next
  case (WriteTorn n)
  show ?thesis
  proof (cases "n < length (json_stringify (JArray xs))")
    case True
    with WriteTorn assms(2) show ?thesis
      by (simp add: weak_store_inv_def writeStudentData_def json_parse_cut_array)
  next
    case False
    then have "take n (json_stringify (JArray xs)) = json_stringify (JArray xs)" by simp
    with WriteTorn assms(2) show ?thesis
      by (simp add: weak_store_inv_def writeStudentData_def store_inv_def parse_stringify_wf)
  qed
qed

lemma quiz_submit_weak:
  assumes "weak_store_inv w" and "wf_json d"
  shows "weak_store_inv (snd (quiz_submit wo d w))"
proof -
  obtain xs where xs: "readStudentData w = JArray xs" using weak_store_inv_read [OF assms(1)] by blast
  have "list_all wf_json (xs @ [d])" using readStudentData_wf [of w] xs assms(2) by simp
  then show ?thesis using assms(1) xs
    by (auto simp: quiz_submit_def js_push_def Let_def weak_store_inv_write)
qed

lemma weak_store_inv_file:
  "data_file w = data_file w' \<Longrightarrow> weak_store_inv w = weak_store_inv w'"
  unfolding weak_store_inv_def store_inv_def by (simp split: option.split)

lemma handle_request_weak:
  assumes "weak_store_inv w"
  shows "weak_store_inv (snd (handle_request wo rq w))"
proof -
  have "weak_store_inv (snd (route wo m p b w))" if "wf_json b" for m p b
    using assms that quiz_submit_weak [OF assms that, of wo] weak_store_inv_file [of "snd (admin_data w)" w]
    by (simp add: route_def)
  with assms show ?thesis
    by (auto simp: handle_request_cases dest: body_parser_wf split: sum.splits)
qed

lemma reachable_weak: "reachable env w \<Longrightarrow> weak_store_inv w"
proof (induction rule: reachable.induct)
  case start
  then show ?case by (simp add: weak_store_inv_def app_listen_def init_world_def)
next
  case (step w wo rq resp w')
  then have "w' = snd (handle_request wo rq w)" by simp
  with step.IH show ?case by (simp add: handle_request_weak)
qed

text \<open>
  C31. Whatever outcomes the environment gives the writes, torn ones included, every
  reachable world's data file is absent, unparseable or the invariant text, so
  \<open>readStudentData\<close> always yields an array: the 500 answers of a non-array store never
  arise from this server's own writes.
\<close>

theorem reachable_reads_array:
  "reachable env w \<Longrightarrow> weak_store_inv w \<and> (\<exists>xs. readStudentData w = JArray xs)"
  using reachable_weak weak_store_inv_read by blast

lemma submit_restores_inv:
  assumes "weak_store_inv w" and "path_matches ''/api/quiz/submit'' p" and "body_parser_json bt = Inr d"
    and "submission_valid d"
  shows "store_inv (snd (handle_request WriteOk \<lparr>req_method = POST, req_path = p, req_body = bt\<rparr> w))"
proof -
  obtain xs where xs: "readStudentData w = JArray xs" using weak_store_inv_read [OF assms(1)] by blast
  have wf: "list_all wf_json (xs @ [d])"
    using readStudentData_wf [of w] xs body_parser_wf [OF assms(3)] by simp
  show ?thesis
  proof (cases "length xs < 4294967295")
    case True
    with assms(2-4) xs wf show ?thesis
      by (simp add: handle_request_split route_def quiz_submit_pushed store_inv_write_ok Let_def)
  next
    case False
    then have "store_inv w"
      using assms(1) xs by (auto simp: weak_store_inv_def readStudentData_def split: option.splits)
    with False assms(2-4) xs show ?thesis
      by (simp add: handle_request_split route_def quiz_submit_store_full)
  qed
qed


lemma handle_request_stuck:
  assumes "data_file w = Some txt" and "json_parse txt = Some v" and "\<forall>xs. v \<noteq> JArray xs"
  shows "data_file (snd (handle_request wo rq w)) = data_file w"
proof -
  have "\<forall>xs. readStudentData w \<noteq> JArray xs" using assms by (simp add: readStudentData_def)
  then have "data_file (snd (route wo m p b w)) = data_file w" for m p b
    by (cases "submission_valid b") (simp_all add: route_def quiz_submit_not_array quiz_submit_rejected)
  then show ?thesis by (simp add: handle_request_cases split: sum.split)
qed

text \<open>
  C32. Liveness of recovery: from every reachable world, whatever write outcomes led there,
  one valid submission whose write succeeds leads to a reachable world satisfying the
  store invariant again (a torn or unreadable file is replaced by a well-formed array).
\<close>

theorem reachable_recovers:
  assumes "reachable env w" and "env WriteOk"
  shows "\<exists>rq. reachable env (snd (handle_request WriteOk rq w)) \<and>
              store_inv (snd (handle_request WriteOk rq w))"
proof -
  let ?bt = "Some ''{\"name\":\"A\",\"email\":\"e\",\"course\":\"C\",\"score\":1}''"
  let ?d = "JObject [(''name'', JString ''A''), (''email'', JString ''e''), (''course'', JString ''C''),
                     (''score'', JNumber (Num 1 0))]"
  let ?rq = "\<lparr>req_method = POST, req_path = ''/api/quiz/submit'', req_body = ?bt\<rparr>"
  have parse: "body_parser_json ?bt = Inr ?d" by code_simp
  have path: "path_matches ''/api/quiz/submit'' ''/api/quiz/submit''" by code_simp
  have "store_inv (snd (handle_request WriteOk ?rq w))"
    by (rule submit_restores_inv [OF reachable_weak [OF assms(1)] path parse])
       code_simp
  moreover have "reachable env (snd (handle_request WriteOk ?rq w))"
    using reachable.step [OF assms(1) assms(2) prod.collapse [symmetric]] .
  ultimately show ?thesis by blast
qed

text \<open>
  C33. A data file that parses to something other than an array is never repaired: every
  request sequence, whatever its write outcomes, leaves the file text unchanged. So every
  valid submission keeps answering 500 (the value has no push method), and every admin
  read keeps returning that same value: 200 with it, or 500 when it is null.
\<close>

theorem non_array_store_permanent:
  assumes "data_file w = Some txt" and "json_parse txt = Some v" and "\<forall>xs. v \<noteq> JArray xs"
  shows "data_file (snd (serve rs w)) = Some txt"
  using assms(1)
proof (induction rs arbitrary: w)
  case Nil
  then show ?case by simp
next
  case (Cons r rs)
  obtain wo rq where r: "r = (wo, rq)" by fastforce
  have "data_file (snd (handle_request wo rq w)) = Some txt"
    using handle_request_stuck [OF Cons.prems assms(2,3)] Cons.prems by simp
  with Cons.IH show ?case by (simp add: r serve_Cons_split del: serve.simps)
qed


theorem reachable_reads_array_witness:
  "reachable (\<lambda>_. True) (app_listen init_world) \<and>
   weak_store_inv (app_listen init_world) \<and> (\<exists>xs. readStudentData (app_listen init_world) = JArray xs)"
  using reachable_reads_array [OF reachable.start] by (simp add: reachable.start)

theorem reachable_recovers_witness:
  "reachable (\<lambda>_. True) (app_listen init_world) \<and> (\<lambda>_. True) WriteOk \<and>
   (\<exists>rq. reachable (\<lambda>_. True) (snd (handle_request WriteOk rq (app_listen init_world))) \<and>
         store_inv (snd (handle_request WriteOk rq (app_listen init_world))))"
  using reachable_recovers [OF reachable.start] by (simp add: reachable.start)

theorem non_array_store_permanent_witness:
  "data_file \<lparr>data_file = Some ''{}'', console = []\<rparr> = Some ''{}'' \<and>
   json_parse ''{}'' = Some (JObject []) \<and> (\<forall>xs. JObject [] \<noteq> JArray xs) \<and>
   data_file (snd (serve [(WriteOk, \<lparr>req_method = POST, req_path = ''/api/quiz/submit'',
        req_body = Some ''{\"name\":\"A\",\"email\":\"e\",\"course\":\"C\",\"score\":1}''\<rparr>)]
      \<lparr>data_file = Some ''{}'', console = []\<rparr>)) = Some ''{}''"
proof -
  have p: "json_parse ''{}'' = Some (JObject [])" by code_simp
  show ?thesis using non_array_store_permanent [OF _ p] p by (simp del: serve.simps)
qed

end
