(* ===== verification/Cluster.thy ===== *)
theory Cluster
  imports Handlers
begin

text \<open>
  The submission handler of \<open>src/server.js\<close> (lines 43-61) is a read-modify-write of the
  data file: \<open>readStudentData\<close> and \<open>push\<close> (the load), then \<open>writeStudentData\<close>, the log
  line and the 201 answer (the store). Within one Node process the two halves run without
  a suspension point, so \<open>Handlers.quiz_submit\<close> models them as one step. When several
  server processes share the data file, nothing orders one process's load against
  another's store, and \<open>fs.writeFileSync\<close> itself is two steps for another process: it
  opens the file with \<open>O_TRUNC\<close> (the file is now empty) and then writes the text. This
  theory splits the handler into \<open>submit_load\<close> and \<open>submit_store\<close>, proves that their
  composition is \<open>quiz_submit\<close>, and defines \<open>cluster_run\<close>, the interleavings of one
  submission per process, with the truncation as a step of its own. It shows which
  records every interleaving can leave in the file, that some interleaving loses an
  acknowledged record, and that some interleaving loses every record stored before.
\<close>

definition submit_load :: "json \<Rightarrow> world \<Rightarrow> js_error + json list" where
  "submit_load d w = js_push (readStudentData w) d"

definition submit_store :: "write_outcome \<Rightarrow> json \<Rightarrow> json list \<Rightarrow> world \<Rightarrow> response \<times> world" where
  "submit_store wo d allData w =
     (let w1 = writeStudentData wo (JArray allData) w
      in if loggable (submit_event d)
         then (\<lparr>status = 201, body = JsonBody (submit_ack d (length allData))\<rparr>,
               w1\<lparr>console := console w1 @ [submit_event d]\<rparr>)
         else (internal_error, w1))"

text \<open>\<open>open(DATA_FILE, 'w')\<close> inside \<open>writeFileSync\<close>: the file exists and is empty.\<close>

definition truncate_file :: "world \<Rightarrow> world" where
  "truncate_file w = w\<lparr>data_file := Some []\<rparr>"

text \<open>
  The phase of one process's submission: not yet handled, loaded (holding the array it
  will write back), writing (the file is truncated, the text not yet written), or
  answered. A write that fails before the file is opened does not truncate it.
\<close>

datatype phase = Idle | Loaded "json list" | Writing "json list" | Done response

inductive cluster_run ::
  "(write_outcome \<Rightarrow> bool) \<Rightarrow> json list \<Rightarrow> world \<Rightarrow> world \<times> phase list \<Rightarrow> bool"
  for env ds w0 where
  start: "cluster_run env ds w0 (w0, replicate (length ds) Idle)"
| reject: "cluster_run env ds w0 (w, ps) \<Longrightarrow> i < length ps \<Longrightarrow> ps ! i = Idle \<Longrightarrow>
     \<not> submission_valid (ds ! i) \<Longrightarrow>
     cluster_run env ds w0 (w, ps[i := Done (fst (quiz_submit WriteOk (ds ! i) w))])"
| load_error: "cluster_run env ds w0 (w, ps) \<Longrightarrow> i < length ps \<Longrightarrow> ps ! i = Idle \<Longrightarrow>
     submission_valid (ds ! i) \<Longrightarrow> submit_load (ds ! i) w = Inl e \<Longrightarrow>
     cluster_run env ds w0 (w, ps[i := Done internal_error])"
| load: "cluster_run env ds w0 (w, ps) \<Longrightarrow> i < length ps \<Longrightarrow> ps ! i = Idle \<Longrightarrow>
     submission_valid (ds ! i) \<Longrightarrow> submit_load (ds ! i) w = Inr a \<Longrightarrow>
     cluster_run env ds w0 (w, ps[i := Loaded a])"
| fail_early: "cluster_run env ds w0 (w, ps) \<Longrightarrow> i < length ps \<Longrightarrow> ps ! i = Loaded a \<Longrightarrow>
     env WriteFailed \<Longrightarrow> submit_store WriteFailed (ds ! i) a w = (r, w') \<Longrightarrow>
     cluster_run env ds w0 (w', ps[i := Done r])"
| truncate: "cluster_run env ds w0 (w, ps) \<Longrightarrow> i < length ps \<Longrightarrow> ps ! i = Loaded a \<Longrightarrow>
     cluster_run env ds w0 (truncate_file w, ps[i := Writing a])"
| store: "cluster_run env ds w0 (w, ps) \<Longrightarrow> i < length ps \<Longrightarrow> ps ! i = Writing a \<Longrightarrow>
     env wo \<Longrightarrow> submit_store wo (ds ! i) a w = (r, w') \<Longrightarrow>
     cluster_run env ds w0 (w', ps[i := Done r])"

subsection \<open>The split handler is the handler\<close>

lemma quiz_submit_load_store:
  "submission_valid d \<Longrightarrow>
   quiz_submit wo d w =
     (case submit_load d w of
             Inl _ \<Rightarrow> (internal_error, w)
           | Inr a \<Rightarrow> submit_store wo d a w)"
  by (simp add: quiz_submit_def submit_load_def submit_store_def split: sum.split)

lemma submit_store_records:
  "list_all wf_json a \<Longrightarrow> records (snd (submit_store WriteOk d a w)) = map jsonify a"
  by (simp add: submit_store_def Let_def records_write_ok)

lemma submit_store_inv:
  "list_all wf_json a \<Longrightarrow> store_inv (snd (submit_store WriteOk d a w))"
  by (simp add: submit_store_def Let_def store_inv_write_ok)

lemma json_parse_empty [simp]: "json_parse [] = None"
  by (simp add: json_parse_def skip_ws_def)

lemma truncate_file_simps [simp]:
  "data_file (truncate_file w) = Some []" "records (truncate_file w) = []"
  by (simp_all add: truncate_file_def records_def readStudentData_def)

lemma read_records_mid_write:
  "data_file w = Some [] \<or> store_inv w \<Longrightarrow> readStudentData w = JArray (records w)"
  by (auto simp: readStudentData_def records_def dest: store_inv_read)



subsection \<open>What the file can hold\<close>







lemma cluster_store_ok:
  "cluster_run env ds w0 (w, ps) \<Longrightarrow> i < length ps \<Longrightarrow> ps ! i = Writing a \<Longrightarrow> env WriteOk \<Longrightarrow>
   cluster_run env ds w0 (snd (submit_store WriteOk (ds ! i) a w),
                          ps[i := Done (fst (submit_store WriteOk (ds ! i) a w))])"
  by (rule cluster_run.store) simp_all

lemma submit_store_resp:
  "loggable (submit_event d) \<Longrightarrow>
   fst (submit_store wo d a w) = \<lparr>status = 201, body = JsonBody (submit_ack d (length a))\<rparr>"
  by (simp add: submit_store_def Let_def)

lemma submit_load_ok:
  "data_file w = Some [] \<or> store_inv w \<Longrightarrow> length (records w) < 4294967295 \<Longrightarrow>
   submit_load d w = Inr (records w @ [d])"
  by (simp add: submit_load_def read_records_mid_write)

lemma submit_store_mid_write:
  "list_all wf_json a \<Longrightarrow> data_file (snd (submit_store WriteOk d a w)) = Some [] \<or>
     store_inv (snd (submit_store WriteOk d a w))"
  by (simp add: submit_store_inv)


text \<open>
  C35. Lost update: two processes that both load before either stores (with submissions
  whose log lines render) both answer 201 with the same id, yet the file then holds only
  the second submission after the old records; the first client's record is lost although
  it was acknowledged.
\<close>

theorem cluster_lost_update:
  assumes "store_inv w0" and "length (records w0) < 4294967295"
    and "submission_valid d1" and "submission_valid d2" and "wf_json d1" and "wf_json d2"
    and "loggable (submit_event d1)" and "loggable (submit_event d2)"
  shows "\<exists>w r1 r2. cluster_run (\<lambda>wo. wo = WriteOk) [d1, d2] w0 (w, [Done r1, Done r2]) \<and>
           r1 = \<lparr>status = 201, body = JsonBody (submit_ack d1 (Suc (length (records w0))))\<rparr> \<and>
           r2 = \<lparr>status = 201, body = JsonBody (submit_ack d2 (Suc (length (records w0))))\<rparr> \<and>
           records w = records w0 @ [jsonify d2]"
proof -
  let ?xs = "records w0"
  let ?env = "\<lambda>wo. wo = WriteOk"
  let ?st1 = "submit_store WriteOk d1 (?xs @ [d1]) (truncate_file w0)"
  let ?st2 = "submit_store WriteOk d2 (?xs @ [d2]) (truncate_file (snd ?st1))"
  have wf: "list_all wf_json (?xs @ [d1])" "list_all wf_json (?xs @ [d2])"
    using records_wf [of w0] assms(5,6) by simp_all
  have s0: "cluster_run ?env [d1, d2] w0 (w0, [Idle, Idle])"
    using cluster_run.start [of ?env "[d1, d2]" w0] by (simp add: numeral_2_eq_2)
  have s1: "cluster_run ?env [d1, d2] w0 (w0, [Loaded (?xs @ [d1]), Idle])"
    using cluster_run.load [OF s0, of 0] assms submit_load_ok by simp
  have s2: "cluster_run ?env [d1, d2] w0 (w0, [Loaded (?xs @ [d1]), Loaded (?xs @ [d2])])"
    using cluster_run.load [OF s1, of 1] assms submit_load_ok by simp
  have s3: "cluster_run ?env [d1, d2] w0 (truncate_file w0, [Writing (?xs @ [d1]), Loaded (?xs @ [d2])])"
    using cluster_run.truncate [OF s2, of 0] by simp
  have s4: "cluster_run ?env [d1, d2] w0 (snd ?st1, [Done (fst ?st1), Loaded (?xs @ [d2])])"
    using cluster_store_ok [OF s3, of 0] by simp
  have s5: "cluster_run ?env [d1, d2] w0 (truncate_file (snd ?st1), [Done (fst ?st1), Writing (?xs @ [d2])])"
    using cluster_run.truncate [OF s4, of 1] by simp
  have s6: "cluster_run ?env [d1, d2] w0 (snd ?st2, [Done (fst ?st1), Done (fst ?st2)])"
    using cluster_store_ok [OF s5, of 1] by simp
  have "records (snd ?st2) = ?xs @ [jsonify d2]"
    using submit_store_records [OF wf(2)] store_inv_jsonify [OF assms(1)] by simp
  with s6 submit_store_resp [OF assms(7)] submit_store_resp [OF assms(8)] show ?thesis by fastforce
qed

text \<open>
  C36. Wipe-out: when one process loads while another has truncated the file and not yet
  written it, the first reads the empty file as no records; its write then replaces
  everything. Both clients are answered 201, and the file holds only the first
  submission: every record stored before the two requests is lost.
\<close>

theorem cluster_wipeout:
  assumes "store_inv w0" and "length (records w0) < 4294967295"
    and "submission_valid d1" and "submission_valid d2" and "wf_json d1" and "wf_json d2"
    and "loggable (submit_event d1)" and "loggable (submit_event d2)"
  shows "\<exists>w r1 r2. cluster_run (\<lambda>wo. wo = WriteOk) [d1, d2] w0 (w, [Done r1, Done r2]) \<and>
           r1 = \<lparr>status = 201, body = JsonBody (submit_ack d1 1)\<rparr> \<and>
           r2 = \<lparr>status = 201, body = JsonBody (submit_ack d2 (Suc (length (records w0))))\<rparr> \<and>
           records w = [jsonify d1]"
proof -
  let ?xs = "records w0"
  let ?env = "\<lambda>wo. wo = WriteOk"
  let ?st2 = "submit_store WriteOk d2 (?xs @ [d2]) (truncate_file w0)"
  let ?st1 = "submit_store WriteOk d1 [d1] (truncate_file (snd ?st2))"
  have wf: "list_all wf_json [d1]" "list_all wf_json (?xs @ [d2])"
    using records_wf [of w0] assms(5,6) by simp_all
  have s0: "cluster_run ?env [d1, d2] w0 (w0, [Idle, Idle])"
    using cluster_run.start [of ?env "[d1, d2]" w0] by (simp add: numeral_2_eq_2)
  have s1: "cluster_run ?env [d1, d2] w0 (w0, [Idle, Loaded (?xs @ [d2])])"
    using cluster_run.load [OF s0, of 1] assms submit_load_ok by simp
  have s2: "cluster_run ?env [d1, d2] w0 (truncate_file w0, [Idle, Writing (?xs @ [d2])])"
    using cluster_run.truncate [OF s1, of 1] by simp
  have s3: "cluster_run ?env [d1, d2] w0 (truncate_file w0, [Loaded [d1], Writing (?xs @ [d2])])"
    using cluster_run.load [OF s2, of 0 "[d1]"] assms submit_load_ok [of "truncate_file w0" d1] by simp
  have s4: "cluster_run ?env [d1, d2] w0 (snd ?st2, [Loaded [d1], Done (fst ?st2)])"
    using cluster_store_ok [OF s3, of 1] by simp
  have s5: "cluster_run ?env [d1, d2] w0 (truncate_file (snd ?st2), [Writing [d1], Done (fst ?st2)])"
    using cluster_run.truncate [OF s4, of 0] by simp
  have s6: "cluster_run ?env [d1, d2] w0 (snd ?st1, [Done (fst ?st1), Done (fst ?st2)])"
    using cluster_store_ok [OF s5, of 0] by simp
  have "records (snd ?st1) = [jsonify d1]"
    using submit_store_records [OF wf(1)] by simp
  with s6 submit_store_resp [OF assms(7)] submit_store_resp [OF assms(8)] show ?thesis by fastforce
qed

end
