(* ===== verification/JsonCompact.thy ===== *)
theory JsonCompact
  imports JsonText
begin

text \<open>
  \<open>JSON.stringify(v)\<close> without a gap, the serialisation Express's \<open>res.json\<close> uses for
  every JSON response of \<open>src/server.js\<close> (lines 48, 58--61, 69, 81--88; the setting
  \<open>json spaces\<close> is not set): no white space at all, members written as the quoted key, a
  colon and the value, an infinite number as \<open>null\<close>. The round trip \<open>JSON.parse\<close> of this text is proved with the
  layout-generic lemmas of \<open>JsonText\<close>, with empty separators.
\<close>

fun stringify_compact :: "json \<Rightarrow> string" where
  "stringify_compact JNull = ''null''"
| "stringify_compact (JBool b) = (if b then ''true'' else ''false'')"
| "stringify_compact (JNumber n) = (if num_finite n then num_to_string n else ''null'')"
| "stringify_compact (JString s) = quote s"
| "stringify_compact (JArray xs) =
     (if xs = [] then ''[]''
      else CHR ''['' # join_with '','' (map stringify_compact xs) @ '']'')"
| "stringify_compact (JObject ps) =
     (if ps = [] then ''{}''
      else CHR ''{'' # join_with '',''
             (map (\<lambda>p. member_text [] (fst p) (stringify_compact (snd p))) ps) @ ''}'')"

subsection \<open>Round trip\<close>

lemma stringify_compact_hd:
  "\<exists>c t. stringify_compact v = c # t \<and> \<not> is_ws c \<and> c \<noteq> CHR '']'' \<and> c \<noteq> CHR ''}''"
proof (cases v)
  case (JNumber x)
  then show ?thesis using num_to_string_hd [of x] by (cases "num_to_string x") (auto split: if_splits)
qed (auto simp: quote_def)

lemma compact_scalar:
  "\<forall>xs. v \<noteq> JArray xs \<Longrightarrow> \<forall>ps. v \<noteq> JObject ps \<Longrightarrow> stringify_compact v = ser [] v"
  by (cases v) simp_all

lemma reads_back_compact_scalar:
  "wf_json v \<Longrightarrow> \<forall>xs. v \<noteq> JArray xs \<Longrightarrow> \<forall>ps. v \<noteq> JObject ps \<Longrightarrow> reads_back (stringify_compact v) (jsonify v)"
  using parses_back_scalar [of v "[]"] compact_scalar [of v] by (simp add: parses_back_def)

lemma reads_back_compact_array:
  assumes IH: "\<forall>x \<in> set xs. reads_back (stringify_compact x) (jsonify x)"
  shows "reads_back (stringify_compact (JArray xs)) (jsonify (JArray xs))"
  unfolding reads_back_def
proof (intro allI impI)
  fix w rest f
  assume w: "list_all is_ws w" and fol: "ser_follow rest"
    and len: "length (w @ stringify_compact (JArray xs) @ rest) < f"
  then obtain g where f: "f = Suc g" by (cases f) auto
  have "parse_value (Suc g) (stringify_compact (JArray xs) @ rest) = Inr (jsonify (JArray xs), rest)"
  proof (cases xs)
    case Nil
    then show ?thesis by (simp add: skip_ws_stop)
  next
    case (Cons x ys)
    define R where "R = concat (map (\<lambda>y. (CHR '','' # []) @ stringify_compact y) ys) @ [] @ CHR '']'' # rest"
    have eq: "stringify_compact (JArray xs) @ rest = CHR ''['' # stringify_compact x @ R"
      by (simp add: Cons R_def join_with_map_Cons)
    have "length (stringify_compact (JArray xs) @ rest) = Suc (length (stringify_compact x @ R))"
      by (simp only: eq) simp
    then have lenR: "length ([] @ stringify_compact x @ R) < g" using len f by simp
    have fol': "ser_follow R"
      using ser_follow_close [of "[]" "CHR '']''" "stringify_compact" ys rest] by (simp add: R_def)
    have px: "parse_value g ([] @ stringify_compact x @ R) = Inr (jsonify x, R)"
      using IH Cons fol' lenR by (intro reads_backD) simp_all
    have pe: "parse_elems g [jsonify x] R = Inr (jsonify (JArray xs), rest)"
      using parse_elems_text [of ys stringify_compact jsonify "[]" "[]" rest g "[jsonify x]"] IH Cons lenR
      by (simp add: R_def)
    obtain d t where dt: "stringify_compact x = d # t" "\<not> is_ws d" "d \<noteq> CHR '']''"
      using stringify_compact_hd [of x] by blast
    show ?thesis
      using dt px pe by (simp only: eq) (simp add: skip_ws_stop del: stringify_compact.simps parse_elems.simps)
  qed
  with parse_value_ws [OF w, of g "stringify_compact (JArray xs) @ rest"]
  show "parse_value f (w @ stringify_compact (JArray xs) @ rest) = Inr (jsonify (JArray xs), rest)"
    by (simp add: f del: parse_value.simps stringify_compact.simps)
qed

lemma reads_back_compact_object:
  assumes IH: "\<forall>p \<in> set ps. reads_back (stringify_compact (snd p)) (jsonify (snd p))"
    and ord: "keys_ordered (map fst ps)"
  shows "reads_back (stringify_compact (JObject ps)) (jsonify (JObject ps))"
  unfolding reads_back_def
proof (intro allI impI)
  fix w rest f
  assume w: "list_all is_ws w" and fol: "ser_follow rest"
    and len: "length (w @ stringify_compact (JObject ps) @ rest) < f"
  then obtain g where f: "f = Suc g" by (cases f) auto
  have "parse_value (Suc g) (stringify_compact (JObject ps) @ rest) = Inr (jsonify (JObject ps), rest)"
  proof (cases ps)
    case Nil
    then show ?thesis by (simp add: skip_ws_stop)
  next
    case (Cons p qs)
    let ?t = "\<lambda>q. stringify_compact (snd q)"
    define M where "M = concat (map (\<lambda>q. CHR '','' # [] @ member_text [] (fst q) (?t q)) qs) @ [] @ CHR ''}'' # rest"
    have eq: "stringify_compact (JObject ps) @ rest = CHR ''{'' # member_text [] (fst p) (?t p) @ M"
      by (simp add: Cons M_def join_with_map_Cons)
    have "length (stringify_compact (JObject ps) @ rest) = Suc (length (member_text [] (fst p) (?t p) @ M))"
      by (simp only: eq) simp
    then have lenM: "length (member_text [] (fst p) (?t p) @ M) < g" using len f by simp
    have "parse_members g [] (member_text [] (fst p) (?t p) @ M) =
        Inr (JObject (foldl (\<lambda>acc q. obj_set (fst q) (jsonify (snd q)) acc) [] (p # qs)), rest)"
      using parse_members_text [of p qs ?t "\<lambda>q. jsonify (snd q)" "[]" "[]" "[]" rest g "[]"] IH Cons lenM
      by (simp add: M_def)
    also have "foldl (\<lambda>acc q. obj_set (fst q) (jsonify (snd q)) acc) [] (p # qs) =
        build_obj (map (\<lambda>(k, v). (k, jsonify v)) ps)"
      by (simp add: build_obj_def Cons foldl_map case_prod_beta')
    also have "\<dots> = map (\<lambda>(k, v). (k, jsonify v)) ps"
      using ord by (intro build_obj_ordered) simp
    finally have pm: "parse_members g [] (member_text [] (fst p) (?t p) @ M) = Inr (jsonify (JObject ps), rest)"
      by simp
    obtain tt where hd: "member_text [] (fst p) (?t p) @ M = dq # tt"
      by (simp add: member_text_def quote_def)
    show ?thesis
      using pm hd by (simp only: eq) (simp add: skip_ws_stop del: stringify_compact.simps parse_members.simps)
  qed
  with parse_value_ws [OF w, of g "stringify_compact (JObject ps) @ rest"]
  show "parse_value f (w @ stringify_compact (JObject ps) @ rest) = Inr (jsonify (JObject ps), rest)"
    by (simp add: f del: parse_value.simps stringify_compact.simps)
qed

lemma reads_back_compact: "wf_json v \<Longrightarrow> reads_back (stringify_compact v) (jsonify v)"
proof (induction v)
  case (JArray xs)
  then show ?case by (intro reads_back_compact_array) (simp add: list_all_iff)
next
  case (JObject ps)
  have "reads_back (stringify_compact (snd p)) (jsonify (snd p))" if p: "p \<in> set ps" for p
  proof -
    have "snd p \<in> Basic_BNFs.snds p" by (simp add: prod_set_defs)
    moreover have "wf_json (snd p)" using JObject.prems p by (simp add: list_all_iff)
    ultimately show ?thesis using JObject.IH p by simp
  qed
  with JObject.prems show ?case by (intro reads_back_compact_object) simp_all
qed (rule reads_back_compact_scalar; simp)+

lemma parse_stringify_compact: "wf_json v \<Longrightarrow> json_parse (stringify_compact v) = Some (jsonify v)"
proof -
  assume wf: "wf_json v"
  have "parse_value (Suc (length (stringify_compact v))) ([] @ stringify_compact v @ []) = Inr (jsonify v, [])"
    by (rule reads_backD [OF reads_back_compact [OF wf]]) (simp_all add: ser_follow_def)
  then show ?thesis by (simp add: json_parse_def skip_ws_def)
qed

end
