(* ===== verification/Http.thy ===== *)
theory Http
  imports Server JsonCompact
begin

text \<open>
  What a client receives: the status line, the headers and the payload of each response
  of \<open>src/server.js\<close>. The headers are those the middlewares set (\<open>Server.app_stack\<close>:
  \<open>X-Powered-By\<close>, then \<open>cors()\<close>'s), followed by those of the response itself:
  \<open>res.json\<close> sends \<open>JSON.stringify(v)\<close> without a gap as \<open>application/json\<close>; Express's
  final handler sends an HTML error page with its security headers; a response \<open>cors()\<close>
  ended has no more. For \<open>HEAD\<close> the headers are those of \<open>GET\<close> and the payload is empty.
\<close>

datatype payload = PayloadJson string | PayloadHtml | PayloadEmpty

record http_response =
  http_status :: nat
  http_headers :: "(string \<times> string) list"
  http_payload :: payload

definition send :: "headers \<Rightarrow> http_method \<Rightarrow> response \<Rightarrow> http_response" where
  "send hs m r =
     (case body r of
        JsonBody v \<Rightarrow>
          (let t = stringify_compact v
           in \<lparr>http_status = status r,
               http_headers = hs @
                 [(''Content-Type'', ''application/json; charset=utf-8''),
                  (''Content-Length'', show_nat (length t))],
               http_payload = if m = HEAD then PayloadEmpty else PayloadJson t\<rparr>)
      | ErrorPage \<Rightarrow>
          \<lparr>http_status = status r,
           http_headers = hs @
             [(''Content-Security-Policy'', ''default-src '' @ CHR 0x27 # ''none'' @ [CHR 0x27]),
              (''X-Content-Type-Options'', ''nosniff''),
              (''Content-Type'', ''text/html; charset=utf-8'')],
           http_payload = if m = HEAD then PayloadEmpty else PayloadHtml\<rparr>
      | NoBody \<Rightarrow> \<lparr>http_status = status r, http_headers = hs, http_payload = PayloadEmpty\<rparr>)"

definition http_exchange :: "write_outcome \<Rightarrow> request \<Rightarrow> world \<Rightarrow> http_response \<times> world" where
  "http_exchange wo rq w = (let (hs, r, w') = app_stack wo rq w in (send hs (req_method rq) r, w'))"

text \<open>What the \<open>cors\<close> package documents for a preflight with the default options.\<close>

definition preflight_response :: http_response where
  "preflight_response =
     \<lparr>http_status = 204,
      http_headers =
        [(''X-Powered-By'', ''Express''), (''Access-Control-Allow-Origin'', ''*''),
         (''Access-Control-Allow-Methods'', ''GET,HEAD,PUT,PATCH,POST,DELETE''),
         (''Vary'', ''Access-Control-Request-Headers''), (''Content-Length'', ''0'')],
      http_payload = PayloadEmpty\<rparr>"

subsection \<open>The wire and the model of responses\<close>

lemma app_stack_headers:
  "\<exists>hs'. fst (app_stack wo rq w) = [(''X-Powered-By'', ''Express''), (''Access-Control-Allow-Origin'', ''*'')] @ hs'"
  by (simp add: app_stack_def cors_mw_def express_init_def Let_def split: sum.split prod.split)

lemma app_stack_snd: "snd (app_stack wo rq w) = dispatch wo rq w"
  by (simp add: dispatch_def)

lemma http_exchange_fst:
  "fst (http_exchange wo rq w) = send (fst (app_stack wo rq w)) (req_method rq) (fst (dispatch wo rq w))"
  by (simp add: http_exchange_def dispatch_def case_prod_unfold Let_def)

lemma http_exchange_world: "snd (http_exchange wo rq w) = snd (handle_request wo rq w)"
  by (simp add: http_exchange_def handle_request_def dispatch_def split: prod.split)

lemma send_status [simp]: "http_status (send hs m r) = status r"
  by (simp add: send_def Let_def split: resp_body.split)

lemma http_exchange_status: "http_status (fst (http_exchange wo rq w)) = status (fst (handle_request wo rq w))"
  by (simp add: http_exchange_fst handle_request_def case_prod_unfold Let_def)

lemma send_headers: "\<exists>hs'. http_headers (send hs m r) = hs @ hs'"
  by (simp add: send_def Let_def split: resp_body.split)

subsection \<open>Every JSON body the server builds is well-formed\<close>

lemma js_get_wf: "wf_json d \<Longrightarrow> js_get d k = Some x \<Longrightarrow> wf_json x"
  by (cases d)
     (auto simp: js_get_def list_all_iff num_of_nat_def num_of_decimal_ok split: if_splits dest!: map_of_SomeD)

lemma js_prop_wf: "wf_json d \<Longrightarrow> list_all (\<lambda>p. wf_json (snd p)) (js_prop k (js_get d k))"
  by (auto simp: js_prop_def dest: js_get_wf split: option.split)

lemma submit_ack_wf: "wf_json d \<Longrightarrow> wf_json (submit_ack d n)"
  using js_prop_wf [of d "''name''"] js_prop_wf [of d "''course''"]
  by (simp add: submit_ack_def js_prop_def num_of_nat_def num_of_decimal_ok is_array_index_def is_digit_def split: option.split)

lemma quiz_submit_json_wf:
  "wf_json d \<Longrightarrow> body (fst (quiz_submit wo d w)) = JsonBody v \<Longrightarrow> wf_json v"
  by (auto simp: quiz_submit_def internal_error_def Let_def is_array_index_def is_digit_def submit_ack_wf
      split: sum.splits if_splits)

lemma route_json_wf:
  "wf_json b \<Longrightarrow> body (fst (route wo m p b w)) = JsonBody v \<Longrightarrow> wf_json v"
  by (auto simp: route_def admin_data_def admin_login_def login_ok_def login_failed_def not_found_def
      internal_error_def js_member_def is_array_index_def is_digit_def readStudentData_wf Let_def
      dest: quiz_submit_json_wf split: sum.splits if_splits)

lemma body_parser_error_page: "body_parser_json bt = Inl err \<Longrightarrow> body err = ErrorPage"
  by (auto simp: body_parser_json_def bad_request_def split: option.splits if_splits list.splits)

lemma dispatch_json_wf: "body (fst (dispatch wo rq w)) = JsonBody v \<Longrightarrow> wf_json v"
  by (auto simp: dispatch_eq dest: route_json_wf body_parser_wf body_parser_error_page
      split: sum.splits if_splits)

lemma handle_request_json_body:
  "body (fst (handle_request wo rq w)) = JsonBody v \<Longrightarrow>
   req_method rq \<noteq> HEAD \<and> req_method rq \<noteq> OPTIONS \<and> body (fst (dispatch wo rq w)) = JsonBody v"
  by (auto simp: handle_request_def dispatch_eq split: prod.splits if_splits)

subsection \<open>Properties of the responses on the wire\<close>

text \<open>
  C13. Every JSON response the server sends reaches the client as the compact
  JSON.stringify text of the handler's value, labelled application/json, and the
  client's JSON.parse of that text gives back the value with every infinite number
  replaced by null.
\<close>

theorem response_json_roundtrip:
  assumes "body (fst (handle_request wo rq w)) = JsonBody v"
  shows "http_payload (fst (http_exchange wo rq w)) = PayloadJson (stringify_compact v) \<and>
         map_of (http_headers (fst (http_exchange wo rq w))) ''Content-Type'' =
           Some ''application/json; charset=utf-8'' \<and>
         json_parse (stringify_compact v) = Some (jsonify v)"
proof -
  have h: "req_method rq \<noteq> HEAD" "req_method rq \<noteq> OPTIONS" "body (fst (dispatch wo rq w)) = JsonBody v"
    using handle_request_json_body [OF assms] by simp_all
  obtain hs' where hs: "fst (app_stack wo rq w) =
      [(''X-Powered-By'', ''Express''), (''Access-Control-Allow-Origin'', ''*'')] @ hs'"
    using app_stack_headers by blast
  have hs'': "hs' = []"
    using h(2) hs by (simp add: app_stack_def cors_mw_def express_init_def Let_def split: sum.splits prod.splits)
  have "send (fst (app_stack wo rq w)) (req_method rq) (fst (dispatch wo rq w)) =
      \<lparr>http_status = status (fst (dispatch wo rq w)),
       http_headers = fst (app_stack wo rq w) @ [(''Content-Type'', ''application/json; charset=utf-8''),
                                      (''Content-Length'', show_nat (length (stringify_compact v)))],
       http_payload = PayloadJson (stringify_compact v)\<rparr>"
    using h by (simp add: send_def Let_def)
  moreover have "json_parse (stringify_compact v) = Some (jsonify v)"
    using dispatch_json_wf [OF h(3)] by (rule parse_stringify_compact)
  ultimately show ?thesis by (simp add: http_exchange_fst hs hs'')
qed

text \<open>
  C23. cors(): every response, whatever the request, the world and the write outcome,
  carries Access-Control-Allow-Origin: *, so any origin may read it; a preflight
  (OPTIONS) request is answered by cors() itself with 204, the allowed methods and no
  body, and changes nothing.
\<close>

theorem cors_every_response:
  "map_of (http_headers (fst (http_exchange wo rq w))) ''Access-Control-Allow-Origin'' = Some ''*'' \<and>
   (req_method rq = OPTIONS \<longrightarrow> http_exchange wo rq w = (preflight_response, w))"
proof
  obtain hs' where "fst (app_stack wo rq w) =
      [(''X-Powered-By'', ''Express''), (''Access-Control-Allow-Origin'', ''*'')] @ hs'"
    using app_stack_headers by blast
  moreover obtain hs'' where "http_headers (send (fst (app_stack wo rq w)) (req_method rq) (fst (dispatch wo rq w))) =
      fst (app_stack wo rq w) @ hs''"
    using send_headers by blast
  ultimately show "map_of (http_headers (fst (http_exchange wo rq w))) ''Access-Control-Allow-Origin'' = Some ''*''"
    by (simp add: http_exchange_fst)
  show "req_method rq = OPTIONS \<longrightarrow> http_exchange wo rq w = (preflight_response, w)"
    by (simp add: http_exchange_def app_stack_def cors_mw_def express_init_def send_def preflight_response_def)
qed

theorem response_json_roundtrip_witness:
  \<open>http_payload (fst (http_exchange WriteOk \<lparr>req_method = POST, req_path = ''/api/admin/login'',
      req_body = Some ''{"username":"admin","password":"password123"}''\<rparr> init_world)) =
     PayloadJson (stringify_compact login_ok) \<and>
   map_of (http_headers (fst (http_exchange WriteOk \<lparr>req_method = POST, req_path = ''/api/admin/login'',
      req_body = Some ''{"username":"admin","password":"password123"}''\<rparr> init_world))) ''Content-Type'' =
     Some ''application/json; charset=utf-8'' \<and>
   json_parse (stringify_compact login_ok) = Some (jsonify login_ok)\<close>
proof -
  have h: \<open>body (fst (handle_request WriteOk \<lparr>req_method = POST, req_path = ''/api/admin/login'',
      req_body = Some ''{"username":"admin","password":"password123"}''\<rparr> init_world)) = JsonBody login_ok\<close>
    by code_simp
  show ?thesis by (rule response_json_roundtrip [OF h])
qed

theorem cors_every_response_witness:
  "map_of (http_headers (fst (http_exchange WriteOk
      \<lparr>req_method = OPTIONS, req_path = ''/api/quiz/submit'', req_body = None\<rparr> init_world)))
      ''Access-Control-Allow-Origin'' = Some ''*'' \<and>
   http_exchange WriteOk \<lparr>req_method = OPTIONS, req_path = ''/api/quiz/submit'', req_body = None\<rparr> init_world =
     (preflight_response, init_world)"
proof -
  have m: "req_method \<lparr>req_method = OPTIONS, req_path = ''/api/quiz/submit'', req_body = None\<rparr> = OPTIONS"
    by simp
  from cors_every_response [of WriteOk "\<lparr>req_method = OPTIONS, req_path = ''/api/quiz/submit'', req_body = None\<rparr>" init_world] m
  show ?thesis by blast
qed

end
