(* ===== verification/Spec2Isabelle.thy ===== *)
theory Spec2Isabelle
  imports Recovery Cluster Http
begin

text \<open>
  \<^bold>\<open>A verified model of the quiz-submission server \<open>src/server.js\<close>.\<close>

  The program is one Express application: a JSON record store kept in the file
  \<open>data.json\<close> (\<open>readStudentData\<close>, \<open>writeStudentData\<close>), three route handlers
  (\<open>POST /api/quiz/submit\<close>, \<open>GET /api/admin/data\<close>, \<open>POST /api/admin/login\<close>), the
  middleware \<open>cors()\<close> and \<open>bodyParser.json()\<close>, and \<open>app.listen\<close>. The handlers call the
  store; the store calls the JavaScript engine's \<open>JSON.parse\<close> and \<open>JSON.stringify\<close>.

  \<^bold>\<open>Theories.\<close>
  \<^item> \<open>Prelude\<close>: decimal digit strings (\<open>nat_of_digits\<close>, \<open>show_nat\<close>), \<open>join_with\<close>, the
    collections \<open>codec_simps\<close> and \<open>handler_simps\<close>.
  \<^item> \<open>JsValue\<close>: the JavaScript values a JSON text denotes (\<open>json\<close>; numbers \<open>jnum\<close>: a
    finite number as an exact decimal, or an infinity), the conversion of a decimal to a
    Number (\<open>num_of_decimal\<close>: at least \<open>2 ^ 1024 - 2 ^ 970\<close> in magnitude becomes an
    infinity, at most \<open>2 ^ -1075\<close> becomes \<open>0\<close>), the own-property order of objects
    (\<open>keys_ordered\<close>) and \<open>CreateDataProperty\<close> (\<open>obj_set\<close>), property reads (\<open>js_get\<close>,
    \<open>js_member\<close>), \<open>ToBoolean\<close> (\<open>js_truthy\<close>), \<open>Array.prototype.push\<close> (\<open>js_push\<close>).
  \<^item> \<open>JsonNumber\<close>: \<open>Number::toString\<close> (\<open>num_to_string\<close>, \<open>Infinity\<close> included) and the
    number rule of \<open>JSON.parse\<close> (\<open>lex_number\<close>).
  \<^item> \<open>JsonText\<close>: \<open>JSON.stringify(v, null, 2)\<close> (\<open>ser\<close>, \<open>json_stringify\<close>; an infinite
    number is written \<open>null\<close>) and \<open>JSON.parse\<close> (\<open>parse_value\<close>, \<open>parse_elems\<close>,
    \<open>parse_members\<close>, \<open>json_parse\<close>), with the round trip to \<open>jsonify v\<close> (the value with
    its infinite numbers replaced by \<open>null\<close>), fuel sufficiency and well-formed results.
  \<^item> \<open>JsonCompact\<close>: \<open>JSON.stringify(v)\<close> without a gap (\<open>stringify_compact\<close>), the
    text \<open>res.json\<close> sends, and its round trip, proved with the layout-generic lemmas of
    \<open>JsonText\<close> (\<open>reads_back\<close>, \<open>parse_elems_text\<close>, \<open>parse_members_text\<close>).
  \<^item> \<open>JsonCut\<close>: \<open>JSON.parse\<close> rejects every proper prefix of the text of a
    well-formed array (\<open>json_parse_cut_array\<close>), the fact behind the torn-write results.
  \<^item> \<open>Store\<close>: the world (\<open>world\<close>: the contents of \<open>data.json\<close> and the console log),
    \<open>readStudentData\<close> (lines 22--30) and \<open>writeStudentData\<close> (lines 32--39) with the
    environment's write outcome (\<open>write_outcome\<close>), the store invariant \<open>store_inv\<close>.
  \<^item> \<open>Console\<close>: the text of the console lines (\<open>log_line\<close>): the template literals
    of lines 56, 67 and 95 with ECMAScript's \<open>ToString\<close> (\<open>js_to_string\<close>), which throws a
    \<open>TypeError\<close> on an object with an own \<open>toString\<close> property; \<open>loggable\<close> says an
    event's line renders.
  \<^item> \<open>Handlers\<close>: \<open>quiz_submit\<close> (lines 44--62, its guard \<open>submission_valid\<close> line 48),
    \<open>admin_data\<close> (lines 65--70), \<open>admin_login\<close> (lines 74--90), responses as \<open>response\<close>.
  \<^item> \<open>Server\<close>: requests; the middleware stack \<open>app_stack\<close> (Express's \<open>init\<close> headers
    \<open>express_init\<close>, \<open>cors_mw\<close> for \<open>cors()\<close> line 12, which answers preflights itself,
    \<open>body_parser_json\<close> line 15); Express routing (\<open>path_matches\<close>, \<open>route\<close>);
    \<open>dispatch\<close> and \<open>handle_request\<close> (\<open>HEAD\<close> drops the body); \<open>app_listen\<close> (lines
    94--97); runs over request lists (\<open>serve\<close>) and the reachable worlds (\<open>reachable\<close>,
    an inductive step relation whose environment picks write outcomes).
  \<^item> \<open>Http\<close>: the responses on the wire (\<open>http_response\<close>): \<open>send\<close> puts the headers the
    middlewares set before those of \<open>res.json\<close> (content type and length of the compact
    text) or of the final handler's error page, and drops the payload of a \<open>HEAD\<close>
    response; \<open>http_exchange\<close> is one request through \<open>app_stack\<close> and \<open>send\<close>.
  \<^item> \<open>Recovery\<close>: the weak invariant \<open>weak_store_inv\<close> that holds under every write
    outcome, recovery of the store invariant by one successful submission, and the
    permanence of a non-array data file.
  \<^item> \<open>Cluster\<close>: the submission handler split at its read-modify-write into
    \<open>submit_load\<close> (lines 52--53) and \<open>submit_store\<close> (lines 54--61), proved to compose to
    \<open>quiz_submit\<close>, and \<open>cluster_run\<close>, an inductive relation of the interleavings of one
    submission per process when several server processes share \<open>data.json\<close>; the
    truncation \<open>writeFileSync\<close> performs when it opens the file (\<open>truncate_file\<close>) is a step
    of its own, so a process is idle, loaded, writing or answered (\<open>phase\<close>).
  \<^item> \<open>Spec2Isabelle\<close> (this theory): the properties that span the components.

  \<^bold>\<open>State and effects.\<close> Every handler is synchronous and the file operations block the
  one Node.js thread, so one request is one atomic step \<open>world \<Rightarrow> response \<times> world\<close>.
  The environment decides each write's outcome: \<open>WriteOk\<close>, \<open>WriteFailed\<close> (nothing
  written) or \<open>WriteTorn n\<close> (the file truncated and only \<open>n\<close> bytes written, as with
  \<open>ENOSPC\<close>). Exceptions of a handler (\<open>TypeError\<close> of \<open>push\<close> on a non-array, of
  \<open>.length\<close> on \<open>null\<close>, of \<open>ToString\<close> in a log line's template literal) are the
  response \<open>internal_error\<close> (status 500) of Express's final handler.

  \<^bold>\<open>Numbers.\<close> A finite Number is kept as the exact decimal the text denotes, not
  rounded to the nearest double. This is exact for what the properties observe: a
  decimal in range and its double both print by \<open>Number::toString\<close> and parse back to
  themselves, and only the overflow to \<open>Infinity\<close> and the underflow to \<open>0\<close>, which
  \<open>num_of_decimal\<close> models, change what is stored or answered. What differs is the value
  of a decimal with more digits than a double holds (\<open>0.1000000000000000055\<close> is kept,
  where V8 stores \<open>0.1\<close>), and the sign of \<open>-0\<close>, which nothing in the server observes.
  Infinite numbers come only from \<open>JSON.parse\<close> of a numeral beyond the double range (a
  request body such as \<open>{"name": 1e400}\<close>); \<open>JSON.stringify\<close> writes them as \<open>null\<close>.

  \<^bold>\<open>Bounds and fuel.\<close> \<open>JSON.parse\<close> is a fuel-bounded mutual recursion; fuel
  \<open>length s + 1\<close> is enough because every nested call consumes input (\<open>parse_fuel_enough_all\<close>).
  Arrays are bounded by \<open>2 ^ 32 - 1\<close> elements as in ECMAScript (\<open>js_push\<close> throws a
  \<open>RangeError\<close> beyond); a data file with that many records is beyond V8's string
  length, so no run reaches the bound, and the run theorems assume at most that many
  accepted submissions.

  \<^bold>\<open>Lemma groups.\<close> JSON codec: round trip of \<open>JSON.stringify\<close>/\<open>JSON.parse\<close> on
  well-formed values to \<open>jsonify\<close>, for the indented text of the store (C3) and the
  compact text of responses (C13), parser totality and well-formed output, rejection of
  truncated array texts. Store: read after write, invariant preservation, no infinite
  number stored (\<open>store_inv_jsonify\<close>). Handlers: each branch of each handler, error paths
  included. Server: invariant of reachable worlds (C4), the run refines an append-only list
  of accepted submissions (C5, C25), GET requests do not interfere (C6), responses
  independent of write outcomes (C9). Recovery: the weak invariant by rule induction over
  \<open>reachable\<close> (C31), liveness of recovery (C32), a non-array file is never repaired
  (C33). Cluster: the invariant of every interleaving (C34, by rule induction over
  \<open>cluster_run\<close>), the lost update (C35) and the wipe-out by a load in the truncation
  window (C36). Http: every JSON body a handler builds is well-formed
  (\<open>dispatch_json_wf\<close>); every response carries the CORS header of \<open>cors_mw\<close> and
  preflights are answered by it (C23).

  \<^bold>\<open>Findings.\<close> The guard of line 48 checks truthiness, not types (C17); a field that
  is an object with an own \<open>toString\<close> passes it but makes the log line of line 56 throw
  after the write: the record is stored and the client told 500 (C18); a field such as
  \<open>1e400\<close> passes it as \<open>Infinity\<close> and is stored as \<open>null\<close>, so the stored record fails
  the guard (C37); a data file holding a non-array makes submissions fail with 500 (C8),
  for \<open>null\<close> retrieval too (C20), while any other non-array is served as the list of
  students (C38); a torn write loses every stored record (C26, C10); malformed JSON bodies
  get 400, not 500 (C16); routes are case-insensitive (C15); in the one Node.js process
  no submission is lost (C5), while processes sharing the file lose acknowledged records
  and hand out the same id twice (C35), and a load during another process's write loses
  every earlier record (C36); the admin data route is readable without credentials
  (C30); a failed write still answers 201 (C9, C29); a non-array data file blocks every
  submission for good (C33), whereas a torn file is repaired by the next successful
  submission (C32).

  \<^bold>\<open>Evaluation.\<close> The concrete scenarios are evaluated by \<open>code_simp\<close>; the prelude
  imports \<open>Code_Target_Nat\<close> so that lengths and numerals evaluate in binary, and the
  range tests of \<open>num_of_decimal\<close> have integer code equations (\<open>num_overflows_code\<close>).

  \<^bold>\<open>Not modelled.\<close> The HTTP transport and Node's event loop (one request at a time is
  modelled for one process; only the submission handler is interleaved across processes,
  and the cluster theorems take successful writes; a concurrent read of a partly written
  file is modelled only as the empty file after the truncation); request headers, so the
  content-type test of body-parser (a request without a JSON content type is modelled as
  having no body), the \<open>Access-Control-Allow-Headers\<close> that \<open>cors()\<close> copies from a
  preflight's \<open>Access-Control-Request-Headers\<close>, conditional GET (\<open>If-None-Match\<close>, 304)
  and the \<open>ETag\<close> header Express computes from a SHA-1 of the body; the text and length
  of the final handler's HTML error page, which depend on \<open>NODE_ENV\<close>; character sets
  other than UTF-8 and compressed bodies in body-parser (modelled: body-parser 1.x
  defaults, 100kb limit, strict mode); rounding of finite numbers to doubles (see
  Numbers); V8's limit on string length, at which \<open>readFileSync\<close> of a huge data file
  throws; the inspection of the \<open>Error\<close> object \<open>console.error\<close> prints after its first
  argument (line 37). The \<open>cors\<close> and \<open>body-parser\<close> packages and Express's router are
  libraries the source only calls: they are modelled from their documented behaviour.
\<close>

abbreviation ana :: json where
  "ana \<equiv> JObject [(''name'', JString ''Ana''), (''email'', JString ''a@x.com''),
                  (''course'', JString ''Math''), (''score'', JNumber (Num 8 0)),
                  (''maxScore'', JNumber (Num 1 1))]"

abbreviation ana_text :: string where
  \<open>ana_text \<equiv> ''{"name":"Ana","email":"a@x.com","course":"Math","score":8,"maxScore":10}''\<close>

abbreviation bad_text :: string where
  \<open>bad_text \<equiv> ''{"name":"Bo","email":"b@x.com","course":"Art"}''\<close>

abbreviation bo :: json where
  "bo \<equiv> JObject [(''name'', JString ''Bo''), (''email'', JString ''b@x.com''),
                 (''course'', JString ''Art''), (''score'', JNumber (Num 5 0))]"

abbreviation submit_req :: "string \<Rightarrow> request" where
  "submit_req txt \<equiv> \<lparr>req_method = POST, req_path = ''/api/quiz/submit'', req_body = Some txt\<rparr>"

abbreviation get_data_req :: request where
  "get_data_req \<equiv> \<lparr>req_method = GET, req_path = ''/api/admin/data'', req_body = None\<rparr>"

lemmas value_simps = submission_valid_def submit_event_def js_get_def js_is_undefined_def is_array_index_def
  is_digit_def num_canon_def num_ok_def num_overflows_code num_underflows_code overflow_bound_code

text \<open>C1. A valid submission on a consistent store answers 201 with the acknowledgement whose id is the new number of records, and the stored records become the old ones followed by the submitted body as its serialisation reads back (an infinite number becomes null).\<close>

theorem submit_appends:
  assumes "store_inv w" and "submission_valid d" and "wf_json d"
    and "length (records w) < 4294967295" and "loggable (submit_event d)"
  shows "fst (quiz_submit WriteOk d w) =
           \<lparr>status = 201, body = JsonBody (submit_ack d (Suc (length (records w))))\<rparr> \<and>
         records (snd (quiz_submit WriteOk d w)) = records w @ [jsonify d]"
proof
  show "fst (quiz_submit WriteOk d w) =
          \<lparr>status = 201, body = JsonBody (submit_ack d (Suc (length (records w))))\<rparr>"
    using assms(2,4,5) store_inv_read [OF assms(1)] by (simp add: quiz_submit_accepted)
  show "records (snd (quiz_submit WriteOk d w)) = records w @ [jsonify d]"
    using assms(2,3,1,4) by (rule quiz_submit_records(1))
qed

theorem submit_appends_witness:
  "fst (quiz_submit WriteOk ana init_world) =
     \<lparr>status = 201, body = JsonBody (submit_ack ana 1)\<rparr> \<and>
   records (snd (quiz_submit WriteOk ana init_world)) = [ana]"
  using submit_appends [of init_world ana] by (simp add: value_simps num_finite_def)

text \<open>C5. End to end: after any run of requests from a fresh server with successful writes, a GET of /api/admin/data answers 200 with exactly the bodies of the accepted submissions, in submission order, as their serialisations read back.\<close>

theorem submissions_listed_in_order:
  assumes "length (accepted rqs) \<le> 4294967295"
    and "path_matches ''/api/admin/data'' p" and "body_parser_json bt = Inr b"
  shows "fst (handle_request wo \<lparr>req_method = GET, req_path = p, req_body = bt\<rparr>
                (snd (serve (map (Pair WriteOk) rqs) (app_listen init_world)))) =
           \<lparr>status = 200, body = JsonBody (JObject [(''students'', JArray (map jsonify (accepted rqs)))])\<rparr>"
proof -
  let ?w = "snd (serve (map (Pair WriteOk) rqs) (app_listen init_world))"
  have inv: "store_inv ?w"
    by (rule serve_inv) (simp_all add: list_all_iff no_torn_write_def)
  have "records ?w = map jsonify (accepted rqs)"
    using serve_records [of "app_listen init_world" rqs] assms(1) by simp
  with inv have "readStudentData ?w = JArray (map jsonify (accepted rqs))"
    by (simp add: store_inv_read)
  with assms(2,3) show ?thesis by (simp add: get_data_resp)
qed

theorem submissions_listed_in_order_witness:
  "fst (handle_request WriteOk get_data_req
      (snd (serve (map (Pair WriteOk) [submit_req ana_text, submit_req bad_text]) (app_listen init_world)))) =
   \<lparr>status = 200, body = JsonBody (JObject [(''students'', JArray (map jsonify (accepted [submit_req ana_text, submit_req bad_text])))])\<rparr>"
proof -
  have h1: "length (accepted [submit_req ana_text, submit_req bad_text]) \<le> 4294967295"
    by code_simp
  have h2: "path_matches ''/api/admin/data'' ''/api/admin/data''"
    by code_simp
  have h3: "body_parser_json None = Inr (JObject [])"
    by (simp add: body_parser_json_def)
  from h1 h2 h3 show ?thesis by (rule submissions_listed_in_order)
qed

theorem reachable_inv_witness:
  "store_inv (snd (handle_request WriteFailed (submit_req ana_text) (app_listen init_world))) \<and>
   list_all stored_record_ok (records (snd (handle_request WriteFailed (submit_req ana_text) (app_listen init_world))))"
proof -
  have "reachable no_torn_write (snd (handle_request WriteFailed (submit_req ana_text) (app_listen init_world)))"
    by (rule reachable.step [OF reachable.start _ prod.collapse [symmetric]]) (simp add: no_torn_write_def)
  then show ?thesis by (rule reachable_inv)
qed

text \<open>C2. A submission request whose body fails the guard of line 48 answers 400 with the fixed message and leaves the world (file and console) unchanged.\<close>

theorem submit_invalid_rejected:
  assumes "path_matches ''/api/quiz/submit'' p" and "body_parser_json bt = Inr d"
    and "\<not> submission_valid d"
  shows "handle_request wo \<lparr>req_method = POST, req_path = p, req_body = bt\<rparr> w =
           (\<lparr>status = 400, body = JsonBody (JObject
              [(''message'', JString ''Missing required student data for submission.'')])\<rparr>, w)"
  using assms by (simp add: handle_request_split route_def quiz_submit_rejected)

theorem submit_invalid_rejected_witness:
  \<open>handle_request WriteOk (submit_req ''{"name":"Ana","email":"a@x.com","course":"Math"}'') init_world =
     (\<lparr>status = 400, body = JsonBody (JObject
        [(''message'', JString ''Missing required student data for submission.'')])\<rparr>, init_world)\<close>
proof -
  have h1: \<open>body_parser_json (Some ''{"name":"Ana","email":"a@x.com","course":"Math"}'') =
      Inr (JObject [(''name'', JString ''Ana''), (''email'', JString ''a@x.com''), (''course'', JString ''Math'')])\<close>
    by code_simp
  have h2: "path_matches ''/api/quiz/submit'' ''/api/quiz/submit''"
    by code_simp
  have h3: "\<not> submission_valid (JObject [(''name'', JString ''Ana''), (''email'', JString ''a@x.com''), (''course'', JString ''Math'')])"
    by code_simp
  from h2 h1 h3 show ?thesis by (rule submit_invalid_rejected)
qed

text \<open>C3. Round trip of the record store's codec: JSON.parse of the text JSON.stringify(v, null, 2) writes gives back v with every infinite number replaced by null, for every well-formed JSON value.\<close>

theorem stringify_parse_roundtrip:
  "wf_json v \<Longrightarrow> json_parse (json_stringify v) = Some (jsonify v)"
  by (rule parse_stringify_wf)

theorem stringify_parse_roundtrip_witness:
  "json_parse (json_stringify (JArray [ana, JNumber PosInf])) = Some (jsonify (JArray [ana, JNumber PosInf]))"
  by (rule stringify_parse_roundtrip) (simp add: value_simps num_ok_def)

text \<open>C6. A GET request changes nothing any later request can observe: every response after it is the same as without it (retrieval is idempotent).\<close>

theorem get_requests_invisible:
  "req_method rq = GET \<Longrightarrow>
   fst (handle_request wo' rq' (snd (handle_request wo rq w))) = fst (handle_request wo' rq' w)"
  by (rule handle_request_resp_file) (simp add: handle_request_GET_file)

theorem get_requests_invisible_witness:
  "fst (handle_request WriteOk get_data_req (snd (handle_request WriteOk get_data_req init_world))) =
   fst (handle_request WriteOk get_data_req init_world)"
  using get_requests_invisible [of get_data_req WriteOk get_data_req WriteOk init_world]
  by simp

text \<open>C7. When the data file is missing or does not parse, GET /api/admin/data answers 200 with an empty list of students.\<close>

theorem unreadable_store_reads_empty:
  assumes "case data_file w of None \<Rightarrow> True | Some txt \<Rightarrow> json_parse txt = None"
    and "path_matches ''/api/admin/data'' p" and "body_parser_json bt = Inr b"
  shows "fst (handle_request wo \<lparr>req_method = GET, req_path = p, req_body = bt\<rparr> w) =
           \<lparr>status = 200, body = JsonBody (JObject [(''students'', JArray [])])\<rparr>"
proof -
  have "readStudentData w = JArray []"
    using assms(1) by (simp add: readStudentData_def split: option.splits)
  with assms(2,3) show ?thesis by (simp add: get_data_resp)
qed

theorem unreadable_store_reads_empty_witness:
  \<open>fst (handle_request WriteOk get_data_req \<lparr>data_file = Some ''[ {"name":"Ana"'', console = []\<rparr>) =
     \<lparr>status = 200, body = JsonBody (JObject [(''students'', JArray [])])\<rparr>\<close>
proof -
  have h1: \<open>json_parse ''[ {"name":"Ana"'' = None\<close> by code_simp
  have h2: "path_matches ''/api/admin/data'' ''/api/admin/data''" by code_simp
  have h3: "body_parser_json None = Inr (JObject [])" by (simp add: body_parser_json_def)
  from h1 h2 h3 show ?thesis by (intro unreadable_store_reads_empty) simp_all
qed

text \<open>C8. When the data file parses to a JSON value that is not an array, a valid submission throws a TypeError in push: the answer is 500 and nothing is written.\<close>

theorem non_array_store_fails:
  assumes "data_file w = Some txt" and "json_parse txt = Some v" and "\<forall>xs. v \<noteq> JArray xs"
    and "submission_valid d"
  shows "quiz_submit wo d w = (internal_error, w)"
  using assms by (simp add: quiz_submit_not_array readStudentData_def)

theorem non_array_store_fails_witness:
  "quiz_submit WriteOk ana \<lparr>data_file = Some ''{}'', console = []\<rparr> = (internal_error, \<lparr>data_file = Some ''{}'', console = []\<rparr>)"
proof -
  have h1: "json_parse ''{}'' = Some (JObject [])" by code_simp
  have h2: "submission_valid ana" by code_simp
  have h3: "\<forall>xs. JObject [] \<noteq> JArray xs" by simp
  show ?thesis by (rule non_array_store_fails [OF _ h1 h3 h2]) simp
qed

text \<open>C10. After the data file has been corrupted (for example by a torn write), the next valid submission overwrites it with a one-element array: every earlier record is lost.\<close>

theorem corrupt_store_loses_records:
  assumes "data_file w = Some txt" and "json_parse txt = None"
    and "submission_valid d" and "wf_json d"
  shows "records (snd (quiz_submit WriteOk d w)) = [jsonify d]"
proof -
  have "readStudentData w = JArray []"
    using assms(1,2) by (simp add: readStudentData_def)
  with assms(3,4) show ?thesis
    by (simp add: quiz_submit_pushed records_write_ok Let_def)
qed

theorem corrupt_store_loses_records_witness:
  \<open>records (snd (quiz_submit WriteOk ana \<lparr>data_file = Some ''[ {"name":"Bo"'', console = []\<rparr>)) = [jsonify ana]\<close>
proof -
  have h1: \<open>json_parse ''[ {"name":"Bo"'' = None\<close> by code_simp
  have h2: "submission_valid ana" by code_simp
  have h3: "wf_json ana" by code_simp
  show ?thesis by (rule corrupt_store_loses_records [OF _ h1 h2 h3]) simp
qed

text \<open>C11. The login route answers 200 with the token exactly when username is the string admin and password the string password123, 401 otherwise, and never changes the world.\<close>

theorem login_route:
  assumes "path_matches ''/api/admin/login'' p" and "body_parser_json bt = Inr b"
  shows "handle_request wo \<lparr>req_method = POST, req_path = p, req_body = bt\<rparr> w =
           (if js_get b ''username'' = Some (JString ''admin'') \<and>
               js_get b ''password'' = Some (JString ''password123'')
            then \<lparr>status = 200, body = JsonBody login_ok\<rparr>
            else \<lparr>status = 401, body = JsonBody login_failed\<rparr>, w)"
  using assms login_not_submit [OF assms(1)]
  by (simp add: handle_request_split route_def admin_login_def)

theorem login_route_witness:
  \<open>handle_request WriteOk \<lparr>req_method = POST, req_path = ''/api/admin/login'',
       req_body = Some ''{"username":"admin","password":"password123"}''\<rparr> init_world =
     (\<lparr>status = 200, body = JsonBody login_ok\<rparr>, init_world)\<close>
proof -
  have h1: "path_matches ''/api/admin/login'' ''/api/admin/login''" by code_simp
  have h2: \<open>body_parser_json (Some ''{"username":"admin","password":"password123"}'') =
      Inr (JObject [(''username'', JString ''admin''), (''password'', JString ''password123'')])\<close>
    by code_simp
  show ?thesis by (simp add: login_route [OF h1 h2] js_get_def)
qed


text \<open>C12. For string-valued name, email and course the guard of line 48 is the spec's check: the three strings are non-empty and score is present (any value, 0 included).\<close>

theorem submission_valid_strings:
  assumes "js_get d ''name'' = Some (JString n)" and "js_get d ''email'' = Some (JString e)"
    and "js_get d ''course'' = Some (JString c)"
  shows "submission_valid d \<longleftrightarrow> n \<noteq> [] \<and> e \<noteq> [] \<and> c \<noteq> [] \<and> js_get d ''score'' \<noteq> None"
  using assms by (simp add: submission_valid_def js_is_undefined_def)

theorem submission_valid_strings_witness:
  "submission_valid (JObject [(''name'', JString ''Ana''), (''email'', JString ''a@x.com''),
                              (''course'', JString ''Math''), (''score'', JNumber (Num 0 0))]) \<longleftrightarrow>
   ''Ana'' \<noteq> [] \<and> ''a@x.com'' \<noteq> [] \<and> ''Math'' \<noteq> [] \<and>
   js_get (JObject [(''name'', JString ''Ana''), (''email'', JString ''a@x.com''),
                    (''course'', JString ''Math''), (''score'', JNumber (Num 0 0))]) ''score'' \<noteq> None"
  by (rule submission_valid_strings) code_simp+

text \<open>C14. Whatever the body parser hands to a handler is a well-formed JSON object or array (strict mode).\<close>

theorem body_parser_output:
  "body_parser_json bt = Inr v \<Longrightarrow> wf_json v \<and> ((\<exists>ps. v = JObject ps) \<or> (\<exists>xs. v = JArray xs))"
  by (simp add: body_parser_wf body_parser_container)

theorem body_parser_output_witness:
  "wf_json (JArray [JNumber (Num 1 0), JNumber (Num 2 0)]) \<and>
   ((\<exists>ps. JArray [JNumber (Num 1 0), JNumber (Num 2 0)] = JObject ps) \<or>
    (\<exists>xs. JArray [JNumber (Num 1 0), JNumber (Num 2 0)] = JArray xs))"
  by (rule body_parser_output [of "Some ''[1, 2]''"]) code_simp

text \<open>C15. Express matches routes case-insensitively and ignores the query string: two requests whose paths agree up to upper and lower case letters before the first question mark get the same response and leave the same world.\<close>

theorem routes_case_insensitive:
  assumes "map lower_char (takeWhile (\<lambda>c. c \<noteq> CHR ''?'') p) = map lower_char (takeWhile (\<lambda>c. c \<noteq> CHR ''?'') p')"
  shows "handle_request wo \<lparr>req_method = m, req_path = p, req_body = bt\<rparr> w =
         handle_request wo \<lparr>req_method = m, req_path = p', req_body = bt\<rparr> w"
proof -
  have "path_matches r p = path_matches r p'" for r
    using assms by (simp add: path_matches_def Let_def)
  then have "route wo' m p b w' = route wo' m p' b w'" for wo' b w'
    by (simp add: route_def)
  then show ?thesis by (simp add: handle_request_def dispatch_eq split: sum.split)
qed

theorem routes_case_insensitive_witness:
  \<open>handle_request WriteOk (submit_req ana_text\<lparr>req_path := ''/API/Quiz/Submit?src=mail''\<rparr>) init_world =
   handle_request WriteOk (submit_req ana_text) init_world\<close>
proof -
  have h: "map lower_char (takeWhile (\<lambda>c. c \<noteq> CHR ''?'') ''/API/Quiz/Submit?src=mail'') =
           map lower_char (takeWhile (\<lambda>c. c \<noteq> CHR ''?'') ''/api/quiz/submit'')" by code_simp
  show ?thesis using routes_case_insensitive [OF h] by simp
qed

text \<open>C16. A non-empty JSON body that JSON.parse rejects is answered 400 by the body parser before any route runs, and the world is unchanged.\<close>

theorem malformed_body_rejected:
  assumes "m \<noteq> OPTIONS" and "m \<noteq> HEAD" and "txt \<noteq> []" and "length txt \<le> json_body_limit"
    and "json_parse txt = None"
  shows "handle_request wo \<lparr>req_method = m, req_path = p, req_body = Some txt\<rparr> w = (bad_request, w)"
  using assms by (simp add: handle_request_split body_parser_parse_error)

theorem malformed_body_rejected_witness:
  \<open>handle_request WriteOk (submit_req ''{"name":'') init_world = (bad_request, init_world)\<close>
proof -
  have h1: \<open>json_parse ''{"name":'' = None\<close> by code_simp
  have h2: \<open>length ''{"name":'' \<le> json_body_limit\<close> by code_simp
  show ?thesis by (rule malformed_body_rejected [OF _ _ _ h2 h1]) simp_all
qed

text \<open>C17. The guard of line 48 checks truthiness, not types: a body with name, email, course and score is accepted exactly when the first three are truthy values of any JSON type, whatever the score is (null, 0 and false included).\<close>

theorem non_string_fields_accepted:
  "submission_valid (JObject [(''name'', n), (''email'', e), (''course'', c), (''score'', sc)]) \<longleftrightarrow>
   js_truthy (Some n) \<and> js_truthy (Some e) \<and> js_truthy (Some c)"
  by (simp add: submission_valid_def js_get_def js_is_undefined_def)

theorem non_string_fields_accepted_witness:
  "submission_valid (JObject [(''name'', JArray []), (''email'', JBool True),
                              (''course'', JNumber (Num 1 0)), (''score'', JNull)]) \<longleftrightarrow>
   js_truthy (Some (JArray [])) \<and> js_truthy (Some (JBool True)) \<and> js_truthy (Some (JNumber (Num 1 0)))"
  by (rule non_string_fields_accepted)

text \<open>C18. A valid submission whose name, course, score or maxScore cannot be converted to a
  string (an object with an own toString property, which JSON.parse makes non-callable)
  makes the template literal of line 56 throw after writeStudentData: the record is stored
  (as its serialisation reads back), but the client gets 500 and no line is logged.\<close>

theorem submit_log_throws:
  assumes "store_inv w" and "submission_valid d" and "wf_json d"
    and "length (records w) < 4294967295" and "\<not> loggable (submit_event d)"
  shows "quiz_submit WriteOk d w = (internal_error, writeStudentData WriteOk (JArray (records w @ [d])) w) \<and>
         records (snd (quiz_submit WriteOk d w)) = records w @ [jsonify d]"
proof -
  have wf: "list_all wf_json (records w @ [d])" using records_wf [of w] assms(3) by simp
  have "quiz_submit WriteOk d w = (internal_error, writeStudentData WriteOk (JArray (records w @ [d])) w)"
    by (rule quiz_submit_log_throws [OF assms(2) store_inv_read [OF assms(1)] assms(4,5)])
  with wf store_inv_jsonify [OF assms(1)] show ?thesis by (simp add: records_write_ok)
qed

theorem submit_log_throws_witness:
  \<open>quiz_submit WriteOk (JObject [(''name'', JObject [(''toString'', JString ''x'')]), (''email'', JString ''e''),
                                  (''course'', JString ''c''), (''score'', JNumber (Num 1 0))]) init_world =
     (internal_error, writeStudentData WriteOk (JArray [JObject [(''name'', JObject [(''toString'', JString ''x'')]),
        (''email'', JString ''e''), (''course'', JString ''c''), (''score'', JNumber (Num 1 0))]]) init_world) \<and>
   records (snd (quiz_submit WriteOk (JObject [(''name'', JObject [(''toString'', JString ''x'')]), (''email'', JString ''e''),
                                  (''course'', JString ''c''), (''score'', JNumber (Num 1 0))]) init_world)) =
     [jsonify (JObject [(''name'', JObject [(''toString'', JString ''x'')]), (''email'', JString ''e''),
               (''course'', JString ''c''), (''score'', JNumber (Num 1 0))])]\<close>
proof -
  have h1: \<open>submission_valid (JObject [(''name'', JObject [(''toString'', JString ''x'')]), (''email'', JString ''e''),
                                  (''course'', JString ''c''), (''score'', JNumber (Num 1 0))])\<close> by code_simp
  have h2: \<open>wf_json (JObject [(''name'', JObject [(''toString'', JString ''x'')]), (''email'', JString ''e''),
                                  (''course'', JString ''c''), (''score'', JNumber (Num 1 0))])\<close> by code_simp
  have h3: \<open>\<not> loggable (submit_event (JObject [(''name'', JObject [(''toString'', JString ''x'')]), (''email'', JString ''e''),
                                  (''course'', JString ''c''), (''score'', JNumber (Num 1 0))]))\<close> by code_simp
  have l: "length (records init_world) < 4294967295" by simp
  show ?thesis
    by (rule submit_log_throws [OF init_world_simps(1) h1 h2 l h3, unfolded init_world_simps append_Nil])
qed

text \<open>Scenario: two valid submissions on a fresh server both answer 201, with ids 1 and 2 and the echoed name and course.\<close>

theorem ids_count_submissions:
  \<open>map status (fst (serve [(WriteOk, submit_req ana_text),
                           (WriteOk, submit_req ''{"name":"Bo","email":"b@x.com","course":"Art","score":0}'')]
                   init_world)) = [201, 201] \<and>
   map body (fst (serve [(WriteOk, submit_req ana_text),
                           (WriteOk, submit_req ''{"name":"Bo","email":"b@x.com","course":"Art","score":0}'')]
                   init_world)) =
     [JsonBody (submit_ack ana 1),
      JsonBody (submit_ack (JObject [(''name'', JString ''Bo''), (''email'', JString ''b@x.com''),
                                     (''course'', JString ''Art''), (''score'', JNumber (Num 0 0))]) 2)]\<close>
  by code_simp

text \<open>C19. A valid submission's effects come in the code's order: a failed write is logged first, then the submission line (when its template literal renders); a successful write logs only the submission line.\<close>

theorem submit_effects_order:
  assumes "store_inv w" and "submission_valid d" and "length (records w) < 4294967295"
    and "loggable (submit_event d)"
  shows "console (snd (quiz_submit wo d w)) =
           console w @ (if wo = WriteOk then [] else [LogWriteError]) @ [submit_event d]"
  using assms store_inv_read [OF assms(1)]
  by (cases "wo = WriteOk") (simp_all add: quiz_submit_accepted console_write_error Let_def)

theorem submit_effects_order_witness:
  "console (snd (quiz_submit WriteFailed ana init_world)) =
     console init_world @ (if WriteFailed = WriteOk then [] else [LogWriteError]) @ [submit_event ana]"
  by (rule submit_effects_order) (simp_all add: value_simps)

text \<open>C20. When the data file holds the JSON text null, GET /api/admin/data throws on null.length and answers 500.\<close>

theorem null_store_get_fails:
  "data_file w = Some txt \<Longrightarrow> json_parse txt = Some JNull \<Longrightarrow> admin_data w = (internal_error, w)"
  by (simp add: admin_data_null readStudentData_def)

theorem null_store_get_fails_witness:
  "admin_data \<lparr>data_file = Some ''null'', console = []\<rparr> = (internal_error, \<lparr>data_file = Some ''null'', console = []\<rparr>)"
proof -
  have h: "json_parse ''null'' = Some JNull" by code_simp
  show ?thesis by (rule null_store_get_fails [OF _ h]) simp
qed

text \<open>C21. The id a 201 answer carries is between 1 and 2^32 - 1, the bound of a JavaScript array's length.\<close>

theorem submit_id_bounds:
  "status (fst (quiz_submit wo d w)) = 201 \<Longrightarrow>
   \<exists>n. body (fst (quiz_submit wo d w)) = JsonBody (submit_ack d n) \<and> 1 \<le> n \<and> n \<le> 4294967295"
  by (auto simp: quiz_submit_def internal_error_def Let_def split: sum.splits if_splits)
     (fastforce dest: js_push_length)

theorem submit_id_bounds_witness:
  "\<exists>n. body (fst (quiz_submit WriteOk ana init_world)) = JsonBody (submit_ack ana n) \<and> 1 \<le> n \<and> n \<le> 4294967295"
proof -
  have "status (fst (quiz_submit WriteOk ana init_world)) = 201" by code_simp
  then show ?thesis by (rule submit_id_bounds)
qed

text \<open>C22. A JSON body longer than body-parser's 100kb limit is answered 413 before any route runs, with the world unchanged.\<close>

theorem oversized_body_rejected:
  assumes "m \<noteq> OPTIONS" and "m \<noteq> HEAD" and "json_body_limit < length txt"
  shows "handle_request wo \<lparr>req_method = m, req_path = p, req_body = Some txt\<rparr> w =
           (\<lparr>status = 413, body = ErrorPage\<rparr>, w)"
  using assms by (simp add: handle_request_split body_parser_json_def)

theorem oversized_body_rejected_witness:
  "handle_request WriteOk \<lparr>req_method = POST, req_path = ''/api/quiz/submit'', req_body = Some (replicate 102401 (CHR ''a''))\<rparr> init_world =
     (\<lparr>status = 413, body = ErrorPage\<rparr>, init_world)"
  by (rule oversized_body_rejected) (simp_all add: json_body_limit_def)

text \<open>C24. A request to a path none of the three routes matches is answered 404 with the world unchanged.\<close>

theorem unknown_path_not_found:
  assumes "m \<noteq> OPTIONS" and "m \<noteq> HEAD" and "body_parser_json bt = Inr b"
    and "\<not> path_matches ''/api/quiz/submit'' p" and "\<not> path_matches ''/api/admin/data'' p"
    and "\<not> path_matches ''/api/admin/login'' p"
  shows "handle_request wo \<lparr>req_method = m, req_path = p, req_body = bt\<rparr> w = (not_found, w)"
  using assms by (simp add: handle_request_split route_unknown)

theorem unknown_path_not_found_witness:
  "handle_request WriteOk \<lparr>req_method = GET, req_path = ''/api/students'', req_body = None\<rparr> init_world = (not_found, init_world)"
proof -
  have h: "\<not> path_matches ''/api/quiz/submit'' ''/api/students'' \<and> \<not> path_matches ''/api/admin/data'' ''/api/students'' \<and>
           \<not> path_matches ''/api/admin/login'' ''/api/students''" by code_simp
  have b: "body_parser_json None = Inr (JObject [])" by (simp add: body_parser_json_def)
  from h b show ?thesis by (intro unknown_path_not_found) simp_all
qed

text \<open>C25. The store is append-only: a request without a torn write on a consistent store only adds records at the end (the spec's 'appending preserves all previously stored records').\<close>

theorem records_append_only:
  "store_inv w \<Longrightarrow> no_torn_write wo \<Longrightarrow> \<exists>new. records (snd (handle_request wo rq w)) = records w @ new"
  by (simp add: handle_request_records split: option.split)

theorem records_append_only_witness:
  "\<exists>new. records (snd (handle_request WriteOk (submit_req ana_text) init_world)) = records init_world @ new"
  by (rule records_append_only) (simp_all add: no_torn_write_def)

text \<open>C26. A write that fails midway (it has truncated the file and written only a proper
  prefix of the new text) always makes the whole store unreadable: the next read gives [],
  so the next successful submission stores only its own record and every earlier
  record is lost. The spec's claim that the document is replaced atomically does not hold.\<close>

theorem torn_write_loses_all_records:
  assumes "store_inv w" and "submission_valid d" and "wf_json d" and "length (records w) < 4294967295"
    and "n < length (json_stringify (JArray (records w @ [d])))"
    and "submission_valid d'" and "wf_json d'"
  shows "records (snd (quiz_submit WriteOk d' (snd (quiz_submit (WriteTorn n) d w)))) = [jsonify d']"
proof -
  let ?w1 = "snd (quiz_submit (WriteTorn n) d w)"
  have wf: "list_all wf_json (records w @ [d])" using records_wf [of w] assms(3) by simp
  have "readStudentData ?w1 = readStudentData (writeStudentData (WriteTorn n) (JArray (records w @ [d])) w)"
    using assms(2,4) store_inv_read [OF assms(1)] by (simp add: quiz_submit_pushed Let_def)
  also have "\<dots> = JArray []" using wf assms(5) by (rule read_after_write_torn_array)
  finally have "readStudentData ?w1 = JArray []" .
  with assms(6,7) show ?thesis
    by (simp add: quiz_submit_pushed records_write_ok Let_def)
qed

theorem torn_write_loses_all_records_witness:
  "records (snd (quiz_submit WriteOk ana (snd (quiz_submit (WriteTorn 5) ana init_world)))) = [jsonify ana]"
proof -
  have h1: "submission_valid ana" by code_simp
  have h2: "wf_json ana" by code_simp
  have h3: "5 < length (json_stringify (JArray (records init_world @ [ana])))" by code_simp
  show ?thesis by (rule torn_write_loses_all_records [OF _ h1 h2 _ h3 h1 h2]) simp_all
qed

text \<open>C27. A HEAD request to /api/admin/data runs the GET handler (it logs the count) and answers 200 without a body.\<close>

theorem head_data_no_body:
  assumes "path_matches ''/api/admin/data'' p" and "body_parser_json bt = Inr b" and "readStudentData w \<noteq> JNull"
    and "loggable (LogAdminData (js_get (readStudentData w) ''length''))"
  shows "handle_request wo \<lparr>req_method = HEAD, req_path = p, req_body = bt\<rparr> w =
           (\<lparr>status = 200, body = NoBody\<rparr>,
            w\<lparr>console := console w @ [LogAdminData (js_get (readStudentData w) ''length'')]\<rparr>)"
  using assms by (simp add: handle_request_split route_def admin_data_ok)

theorem head_data_no_body_witness:
  "handle_request WriteOk \<lparr>req_method = HEAD, req_path = ''/api/admin/data'', req_body = None\<rparr> init_world =
     (\<lparr>status = 200, body = NoBody\<rparr>,
      init_world\<lparr>console := console init_world @ [LogAdminData (js_get (readStudentData init_world) ''length'')]\<rparr>)"
proof -
  have h1: "path_matches ''/api/admin/data'' ''/api/admin/data''" by code_simp
  have h2: "body_parser_json None = Inr (JObject [])" by (simp add: body_parser_json_def)
  show ?thesis by (rule head_data_no_body [OF h1 h2]) (simp_all add: js_get_def)
qed

text \<open>C28. A GET (or PUT, DELETE, PATCH) request to one of the two POST routes is answered 404 and changes nothing.\<close>

theorem wrong_method_not_found:
  assumes "m \<notin> {POST, OPTIONS, HEAD}" and "path_matches ''/api/quiz/submit'' p \<or> path_matches ''/api/admin/login'' p"
    and "body_parser_json bt = Inr b"
  shows "handle_request wo \<lparr>req_method = m, req_path = p, req_body = bt\<rparr> w = (not_found, w)"
proof -
  have "\<not> path_matches ''/api/admin/data'' p"
    using assms(2) by (auto simp: path_matches_def Let_def)
  with assms show ?thesis by (auto simp: handle_request_split route_def)
qed

theorem wrong_method_not_found_witness:
  "handle_request WriteOk \<lparr>req_method = GET, req_path = ''/api/quiz/submit'', req_body = None\<rparr> init_world = (not_found, init_world)"
proof -
  have h1: "path_matches ''/api/quiz/submit'' ''/api/quiz/submit''" by code_simp
  have h2: "body_parser_json None = Inr (JObject [])" by (simp add: body_parser_json_def)
  show ?thesis by (rule wrong_method_not_found) (simp_all add: h1 h2)
qed

text \<open>C29. A write failure is a false positive, as the spec's error design says: the submission still answers 201 but the stored records are unchanged.\<close>

theorem failed_write_false_positive:
  assumes "store_inv w" and "submission_valid d" and "length (records w) < 4294967295"
    and "loggable (submit_event d)"
  shows "status (fst (quiz_submit WriteFailed d w)) = 201 \<and> records (snd (quiz_submit WriteFailed d w)) = records w"
  using assms store_inv_read [OF assms(1)]
  by (simp add: quiz_submit_accepted records_write_failed Let_def)

theorem failed_write_false_positive_witness:
  "status (fst (quiz_submit WriteFailed ana init_world)) = 201 \<and> records (snd (quiz_submit WriteFailed ana init_world)) = records init_world"
proof -
  have h: "submission_valid ana" by code_simp
  have l: "loggable (submit_event ana)" by code_simp
  show ?thesis by (rule failed_write_false_positive [OF _ h _ l]) simp_all
qed

text \<open>C30. The admin data route checks no credentials: its answer and effect are the same whatever JSON body (token or none) the request carries; the login token is decorative.\<close>

theorem admin_data_ignores_credentials:
  assumes "path_matches ''/api/admin/data'' p" and "body_parser_json bt = Inr b" and "body_parser_json bt' = Inr b'"
  shows "handle_request wo \<lparr>req_method = GET, req_path = p, req_body = bt\<rparr> w =
         handle_request wo' \<lparr>req_method = GET, req_path = p, req_body = bt'\<rparr> w"
  using assms by (simp add: handle_request_split route_def)

theorem admin_data_ignores_credentials_witness:
  \<open>handle_request WriteOk \<lparr>req_method = GET, req_path = ''/api/admin/data'', req_body = None\<rparr> init_world =
   handle_request WriteOk \<lparr>req_method = GET, req_path = ''/api/admin/data'', req_body = Some ''{"token":"mock-auth-token-123"}''\<rparr> init_world\<close>
proof -
  have h1: "path_matches ''/api/admin/data'' ''/api/admin/data''" by code_simp
  have h2: "body_parser_json None = Inr (JObject [])" by (simp add: body_parser_json_def)
  have h3: \<open>body_parser_json (Some ''{"token":"mock-auth-token-123"}'') = Inr (JObject [(''token'', JString ''mock-auth-token-123'')])\<close>
    by code_simp
  show ?thesis by (rule admin_data_ignores_credentials [OF h1 h2 h3])
qed


theorem cluster_lost_update_witness:
  "store_inv (app_listen init_world) \<and> length (records (app_listen init_world)) < 4294967295 \<and>
   submission_valid ana \<and> submission_valid bo \<and> wf_json ana \<and> wf_json bo \<and>
   (\<exists>w r1 r2. cluster_run (\<lambda>wo. wo = WriteOk) [ana, bo] (app_listen init_world) (w, [Done r1, Done r2]) \<and>
      r1 = \<lparr>status = 201, body = JsonBody (submit_ack ana (Suc 0))\<rparr> \<and>
      r2 = \<lparr>status = 201, body = JsonBody (submit_ack bo (Suc 0))\<rparr> \<and> records w = [jsonify bo])"
proof -
  have h: "store_inv (app_listen init_world)" "records (app_listen init_world) = []"
    by (simp_all add: store_inv_def records_def readStudentData_def app_listen_def init_world_def)
  have v: "submission_valid ana" "submission_valid bo" "wf_json ana" "wf_json bo"
    "loggable (submit_event ana)" "loggable (submit_event bo)" by code_simp+
  have "\<exists>w r1 r2. cluster_run (\<lambda>wo. wo = WriteOk) [ana, bo] (app_listen init_world) (w, [Done r1, Done r2]) \<and>
      r1 = \<lparr>status = 201, body = JsonBody (submit_ack ana (Suc 0))\<rparr> \<and>
      r2 = \<lparr>status = 201, body = JsonBody (submit_ack bo (Suc 0))\<rparr> \<and> records w = [jsonify bo]"
    using cluster_lost_update [OF h(1) _ v] h by simp
  moreover have "length (records (app_listen init_world)) < 4294967295" using h by simp
  ultimately show ?thesis using h v by blast
qed

abbreviation bo_store :: world where
  "bo_store \<equiv> \<lparr>data_file = Some (json_stringify (JArray [bo])), console = []\<rparr>"

theorem cluster_wipeout_witness:
  "store_inv bo_store \<and> records bo_store = [bo] \<and>
   (\<exists>w r1 r2. cluster_run (\<lambda>wo. wo = WriteOk) [ana, bo] bo_store (w, [Done r1, Done r2]) \<and>
      r1 = \<lparr>status = 201, body = JsonBody (submit_ack ana 1)\<rparr> \<and>
      r2 = \<lparr>status = 201, body = JsonBody (submit_ack bo 2)\<rparr> \<and> records w = [jsonify ana])"
proof -
  have h: "store_inv bo_store" "records bo_store = [bo]" by code_simp+
  have v: "submission_valid ana" "submission_valid bo" "wf_json ana" "wf_json bo"
    "loggable (submit_event ana)" "loggable (submit_event bo)" by code_simp+
  have "\<exists>w r1 r2. cluster_run (\<lambda>wo. wo = WriteOk) [ana, bo] bo_store (w, [Done r1, Done r2]) \<and>
      r1 = \<lparr>status = 201, body = JsonBody (submit_ack ana 1)\<rparr> \<and>
      r2 = \<lparr>status = 201, body = JsonBody (submit_ack bo (Suc (length (records bo_store))))\<rparr> \<and>
      records w = [jsonify ana]"
    using h(2) by (intro cluster_wipeout [OF h(1) _ v]) simp
  with h show ?thesis by (simp add: numeral_2_eq_2)
qed

text \<open>C37. The guard of line 48 is checked on the parsed body, but the record is stored as its serialisation reads back: a valid submission whose name, email or course is a number beyond the double range (such as 1e400, which JSON.parse makes Infinity, a truthy value) is stored, and the stored record has null there and fails the guard.\<close>

theorem stored_record_fails_guard:
  assumes "store_inv w" and "submission_valid d" and "wf_json d" and "length (records w) < 4294967295"
    and "k \<in> {''name'', ''email'', ''course''}" and "js_get d k = Some (JNumber n)" and "\<not> num_finite n"
  shows "records (snd (quiz_submit WriteOk d w)) = records w @ [jsonify d] \<and>
         js_get (jsonify d) k = Some JNull \<and> \<not> submission_valid (jsonify d)"
proof -
  obtain ps where d: "d = JObject ps"
    using assms(5,6) by (cases d) (auto simp: js_get_def is_array_index_def is_digit_def split: if_splits)
  have "js_get (jsonify d) k = map_option jsonify (js_get d k)"
    unfolding d by (rule js_get_jsonify_object)
  with assms(6,7) have k: "js_get (jsonify d) k = Some JNull" by simp
  have "records (snd (quiz_submit WriteOk d w)) = records w @ [jsonify d]"
    using assms(1-4) store_inv_read [OF assms(1)] records_wf [of w] store_inv_jsonify [OF assms(1)]
    by (simp add: quiz_submit_pushed records_write_ok Let_def del: jsonify.simps)
  moreover have "\<not> submission_valid (jsonify d)"
    using assms(5) k by (auto simp: submission_valid_def)
  ultimately show ?thesis using k by blast
qed

theorem stored_record_fails_guard_witness:
  \<open>body_parser_json (Some ''{"name":1e400,"email":"e","course":"c","score":1}'') =
     Inr (JObject [(''name'', JNumber PosInf), (''email'', JString ''e''), (''course'', JString ''c''),
                   (''score'', JNumber (Num 1 0))]) \<and>
   records (snd (quiz_submit WriteOk (JObject [(''name'', JNumber PosInf), (''email'', JString ''e''),
       (''course'', JString ''c''), (''score'', JNumber (Num 1 0))]) init_world)) =
     [JObject [(''name'', JNull), (''email'', JString ''e''), (''course'', JString ''c''),
               (''score'', JNumber (Num 1 0))]] \<and>
   js_get (JObject [(''name'', JNull), (''email'', JString ''e''), (''course'', JString ''c''),
               (''score'', JNumber (Num 1 0))]) ''name'' = Some JNull \<and>
   \<not> submission_valid (JObject [(''name'', JNull), (''email'', JString ''e''), (''course'', JString ''c''),
               (''score'', JNumber (Num 1 0))])\<close>
proof -
  let ?d = "JObject [(''name'', JNumber PosInf), (''email'', JString ''e''), (''course'', JString ''c''),
                     (''score'', JNumber (Num 1 0))]"
  have p: \<open>body_parser_json (Some ''{"name":1e400,"email":"e","course":"c","score":1}'') = Inr ?d\<close>
    by code_simp
  have v: "submission_valid ?d" "wf_json ?d" by code_simp+
  have g: "js_get ?d ''name'' = Some (JNumber PosInf)" by code_simp
  have "records (snd (quiz_submit WriteOk ?d init_world)) = records init_world @ [jsonify ?d] \<and>
        js_get (jsonify ?d) ''name'' = Some JNull \<and> \<not> submission_valid (jsonify ?d)"
    by (rule stored_record_fails_guard [where n = PosInf, OF init_world_simps(1) v]) (simp_all add: g num_finite_def)
  with p show ?thesis by (simp add: num_finite_def)
qed

text \<open>C38. A data file that parses to a value that is neither an array nor null is served as it is: GET /api/admin/data answers 200 with that value as students (reading its length gives undefined or a number, and the line is logged), although the spec promises the list of stored submissions.\<close>

theorem non_array_store_get:
  assumes "data_file w = Some txt" and "json_parse txt = Some v" and "\<forall>xs. v \<noteq> JArray xs" and "v \<noteq> JNull"
    and "loggable (LogAdminData (js_get v ''length''))"
    and "path_matches ''/api/admin/data'' p" and "body_parser_json bt = Inr b"
  shows "handle_request wo \<lparr>req_method = GET, req_path = p, req_body = bt\<rparr> w =
           (\<lparr>status = 200, body = JsonBody (JObject [(''students'', v)])\<rparr>,
            w\<lparr>console := console w @ [LogAdminData (js_get v ''length'')]\<rparr>)"
proof -
  have "readStudentData w = v" using assms(1,2) by (simp add: readStudentData_def)
  with assms(4-7) show ?thesis by (simp add: handle_request_split route_def admin_data_ok)
qed

theorem non_array_store_get_witness:
  "handle_request WriteOk get_data_req \<lparr>data_file = Some ''{}'', console = []\<rparr> =
     (\<lparr>status = 200, body = JsonBody (JObject [(''students'', JObject [])])\<rparr>,
      \<lparr>data_file = Some ''{}'', console = [LogAdminData None]\<rparr>)"
proof -
  have p: "json_parse ''{}'' = Some (JObject [])" by code_simp
  have l: "loggable (LogAdminData (js_get (JObject []) ''length''))" by code_simp
  have m: "path_matches ''/api/admin/data'' ''/api/admin/data''" by code_simp
  have b: "body_parser_json None = Inr (JObject [])" by (simp add: body_parser_json_def)
  show ?thesis using non_array_store_get [OF _ p _ _ l m b] by (simp add: js_get_def)
qed

end
